theory Spec2Isabelle
  imports Main
begin

section \<open>Data model (types.ts)\<close>

datatype AppState = SETUP | LOCKED | UNLOCKED

datatype SecurityStatus = IDLE | CHECKING | BREACH_DETECTED | GRANTED

text \<open>
  The JavaScript numbers this program produces are integers (counters, clock reads, the
  result of \<^verbatim>\<open>parseInt\<close>) or \<^verbatim>\<open>NaN\<close> (the other result of
  \<^verbatim>\<open>parseInt\<close>). Counters and clock reads are \<^typ>\<open>int\<close>; a field that
  \<^verbatim>\<open>parseInt\<close> writes is a \<open>number\<close>. Integers are exact below \<open>2^53\<close>;
  the rounding of doubles beyond that is not modelled.
\<close>

datatype number = NaN | Num int

record IntruderLog =
  id_log :: string
  timestamp :: int
  imageData :: string
  attemptNumber :: int
  aiAnalysis :: "string option"

record AppSettings =
  alertEmail :: string
  triggerThreshold :: number
  enableCapture :: bool

section \<open>Constants of the component\<close>

definition PIN_STORAGE_KEY :: string where
  "PIN_STORAGE_KEY = ''vault_guard_pin''"

definition LOGS_STORAGE_KEY :: string where
  "LOGS_STORAGE_KEY = ''vault_guard_logs''"

definition SETTINGS_STORAGE_KEY :: string where
  "SETTINGS_STORAGE_KEY = ''vault_guard_settings''"

definition DEFAULT_SETTINGS :: AppSettings where
  "DEFAULT_SETTINGS = \<lparr>alertEmail = '''', triggerThreshold = Num 1, enableCapture = True\<rparr>"

section \<open>The state cells of the component\<close>

text \<open>One field for each \<^verbatim>\<open>useState\<close> cell of \<^verbatim>\<open>App\<close>.\<close>

record State =
  appState :: AppState
  inputPin :: string
  storedPin :: "string option"
  logs :: "IntruderLog list"
  settings :: AppSettings
  securityStatus :: SecurityStatus
  cameraActive :: bool
  analyzingId :: "string option"
  sessionFailedAttempts :: int
  showSettings :: bool
  alertMessage :: "string option"

text \<open>The values the cells are created with.\<close>

definition initialState :: State where
  "initialState =
     \<lparr>appState = SETUP, inputPin = '''', storedPin = None, logs = [],
      settings = DEFAULT_SETTINGS, securityStatus = IDLE, cameraActive = False,
      analyzingId = None, sessionFailedAttempts = 0, showSettings = False,
      alertMessage = None\<rparr>"

text \<open>
  What a handler reads outside the state cells when it runs: the two element refs, whether
  the canvas hands out a 2d context, the data URL the canvas encodes the frame to, and the
  clock (\<open>Date_now env k\<close> is the \<open>k\<close>-th read of \<^verbatim>\<open>Date.now()\<close> by the handler).
\<close>

record Env =
  videoRef_current :: bool
  canvasRef_current :: bool
  getContext_2d :: bool
  toDataURL :: string
  Date_now :: "nat \<Rightarrow> int"

text \<open>
  \<^verbatim>\<open>JSON.stringify\<close> and \<^verbatim>\<open>JSON.parse\<close> belong to the platform and are taken as
  parameters. A parse that throws \<^verbatim>\<open>SyntaxError\<close> is \<open>None\<close>; a parse that
  succeeds is taken at the type the component declares for the cell it is stored in.
\<close>

record JSON =
  stringify_logs :: "IntruderLog list \<Rightarrow> string"
  stringify_settings :: "AppSettings \<Rightarrow> string"
  parse_logs :: "string \<Rightarrow> IntruderLog list option"
  parse_settings :: "string \<Rightarrow> AppSettings option"

section \<open>Effects\<close>

text \<open>A call of one of the state setters with a value.\<close>

datatype update =
    SetAppState AppState
  | SetInputPin string
  | SetStoredPin string
  | SetLogs "IntruderLog list"
  | SetSettings AppSettings
  | SetSecurityStatus SecurityStatus
  | SetCameraActive bool
  | SetAnalyzingId "string option"
  | SetSessionFailedAttempts int
  | SetShowSettings bool
  | SetAlertMessage "string option"

text \<open>
  What a handler does, in program order. \<open>Await d\<close> is the handler waiting \<open>d\<close>
  milliseconds before it goes on; \<open>SetTimeout us d\<close> registers a callback that makes the
  setter calls \<open>us\<close> after \<open>d\<close> milliseconds; \<open>CaptureIntruder r\<close> records a call of
  \<^verbatim>\<open>captureIntruder\<close> and what it returned.
\<close>

datatype effect =
    Update update
  | LocalStorage_setItem string string
  | Console_log string
  | Console_error string
  | Window_alert string
  | CaptureIntruder "string option"
  | Await nat
  | SetTimeout "update list" nat

fun apply_update :: "update \<Rightarrow> State \<Rightarrow> State" where
  "apply_update (SetAppState v) s = s\<lparr>appState := v\<rparr>"
| "apply_update (SetInputPin v) s = s\<lparr>inputPin := v\<rparr>"
| "apply_update (SetStoredPin v) s = s\<lparr>storedPin := Some v\<rparr>"
| "apply_update (SetLogs v) s = s\<lparr>logs := v\<rparr>"
| "apply_update (SetSettings v) s = s\<lparr>settings := v\<rparr>"
| "apply_update (SetSecurityStatus v) s = s\<lparr>securityStatus := v\<rparr>"
| "apply_update (SetCameraActive v) s = s\<lparr>cameraActive := v\<rparr>"
| "apply_update (SetAnalyzingId v) s = s\<lparr>analyzingId := v\<rparr>"
| "apply_update (SetSessionFailedAttempts v) s = s\<lparr>sessionFailedAttempts := v\<rparr>"
| "apply_update (SetShowSettings v) s = s\<lparr>showSettings := v\<rparr>"
| "apply_update (SetAlertMessage v) s = s\<lparr>alertMessage := v\<rparr>"

text \<open>
  The world a handler acts on: the state cells, whether \<^verbatim>\<open>streamRef\<close> holds a
  stream, the persistent store (\<^verbatim>\<open>localStorage\<close>, taken as never failing a write),
  the console and the dialogs shown with \<^verbatim>\<open>alert\<close>.
\<close>

record World =
  cells :: State
  streamRef_current :: bool
  localStorage :: "string \<rightharpoonup> string"
  console :: "string list"
  dialogs :: "string list"

fun exec :: "effect \<Rightarrow> World \<Rightarrow> World" where
  "exec (Update u) w = w\<lparr>cells := apply_update u (cells w)\<rparr>"
| "exec (LocalStorage_setItem k v) w = w\<lparr>localStorage := (localStorage w)(k \<mapsto> v)\<rparr>"
| "exec (Console_log m) w = w\<lparr>console := console w @ [m]\<rparr>"
| "exec (Console_error m) w = w\<lparr>console := console w @ [m]\<rparr>"
| "exec (Window_alert m) w = w\<lparr>dialogs := dialogs w @ [m]\<rparr>"
| "exec (CaptureIntruder r) w = w"
| "exec (Await d) w = w"
| "exec (SetTimeout us d) w = w"

text \<open>
  The effects of a handler with the time (milliseconds from its start) at which each
  happens: an \<open>Await\<close> moves the clock for what follows it, a timer's setter calls happen
  at the time of registration plus the delay.
\<close>

fun schedule :: "nat \<Rightarrow> effect list \<Rightarrow> (nat \<times> effect) list" where
  "schedule t [] = []"
| "schedule t (Await d # es) = schedule (t + d) es"
| "schedule t (SetTimeout us d # es) = map (\<lambda>u. (t + d, Update u)) us @ schedule t es"
| "schedule t (e # es) = (t, e) # schedule t es"

text \<open>
  The timeline: the scheduled effects in the order of their times; effects of one time keep
  the order of the schedule (the sort is stable).
\<close>

definition timeline :: "effect list \<Rightarrow> (nat \<times> effect) list" where
  "timeline es = sort_key fst (schedule 0 es)"

definition run :: "effect list \<Rightarrow> World \<Rightarrow> World" where
  "run es w = fold exec (map snd (timeline es)) w"

text \<open>The values the verification status takes along a timeline, after the one it starts with.\<close>

fun status_set :: "effect \<Rightarrow> SecurityStatus option" where
  "status_set (Update (SetSecurityStatus v)) = Some v"
| "status_set e = None"

definition status_trace :: "SecurityStatus \<Rightarrow> effect list \<Rightarrow> SecurityStatus list" where
  "status_trace s0 es = s0 # List.map_filter status_set (map snd (timeline es))"

section \<open>Numbers and strings of the platform\<close>

text \<open>\<^verbatim>\<open>a >= b\<close> with an integer on the left: false when \<open>b\<close> is \<^verbatim>\<open>NaN\<close>.\<close>

fun ge_number :: "int \<Rightarrow> number \<Rightarrow> bool" where
  "ge_number a NaN = False"
| "ge_number a (Num b) = (b \<le> a)"

text \<open>The decimal digits of a natural number, and \<^verbatim>\<open>toString\<close> of an integer.\<close>

fun digits :: "nat \<Rightarrow> string" where
  "digits n = (if n < 10 then [''0123456789'' ! n] else digits (n div 10) @ [''0123456789'' ! (n mod 10)])"

declare digits.simps [simp del]

definition toString :: "int \<Rightarrow> string" where
  "toString i = (if i < 0 then CHR ''-'' # digits (nat (- i)) else digits (nat i))"

text \<open>Truthiness of a value that is a string or \<^verbatim>\<open>null\<close>: a non-empty string.\<close>

fun truthy :: "string option \<Rightarrow> bool" where
  "truthy None = False"
| "truthy (Some v) = (v \<noteq> '''')"

section \<open>Capture and alert\<close>

text \<open>
  \<^verbatim>\<open>captureIntruder\<close>: \<open>c\<close> is the render whose \<^verbatim>\<open>cameraActive\<close> the callback
  closed over; the refs are read when it is called.
\<close>

definition captureIntruder :: "Env \<Rightarrow> State \<Rightarrow> string option" where
  "captureIntruder env c =
     (if \<not> videoRef_current env \<or> \<not> canvasRef_current env \<or> \<not> cameraActive c then None
      else if getContext_2d env then Some (toDataURL env)
      else None)"

definition sendSecurityAlert :: "State \<Rightarrow> string \<Rightarrow> int \<Rightarrow> effect list" where
  "sendSecurityAlert c img attemptCount =
     (if alertEmail (settings c) = '''' then []
      else
        [Console_log (''[ALERT SYSTEM] Sending email to '' @ alertEmail (settings c)),
         Console_log (''[ALERT SYSTEM] Subject: Intruder Alert! '' @ toString attemptCount
                        @ '' failed attempts detected.''),
         Console_log ''[ALERT SYSTEM] Attachment: [Base64 Image Data]'',
         Update (SetAlertMessage (Some (''Alert sent to '' @ alertEmail (settings c)))),
         SetTimeout [SetAlertMessage None] 3000])"

section \<open>Security core: handlePinSubmit\<close>

text \<open>
  \<open>c\<close> is the render the handler closed over (the auto-submit effect calls the handler of
  the render in which the input reached four characters).
\<close>

definition handlePinSubmit :: "JSON \<Rightarrow> Env \<Rightarrow> State \<Rightarrow> effect list" where
  "handlePinSubmit json env c =
     [Update (SetSecurityStatus CHECKING), Await 600] @
     (if appState c = SETUP then
        (if length (inputPin c) = 4 then
           [LocalStorage_setItem PIN_STORAGE_KEY (inputPin c),
            Update (SetStoredPin (inputPin c)),
            Update (SetAppState LOCKED),
            Update (SetInputPin ''''),
            Update (SetSecurityStatus IDLE),
            Window_alert ''Passcode set successfully! System is now armed.'']
         else [Update (SetSecurityStatus IDLE)])
      else if appState c = LOCKED then
        (if Some (inputPin c) = storedPin c then
           [Update (SetSecurityStatus GRANTED),
            Update (SetSessionFailedAttempts 0),
            SetTimeout [SetAppState UNLOCKED, SetInputPin '''', SetSecurityStatus IDLE] 500]
         else
           (let currentAttempts = sessionFailedAttempts c + 1 in
            [Update (SetSecurityStatus BREACH_DETECTED),
             Update (SetSessionFailedAttempts currentAttempts)] @
            (if enableCapture (settings c)
                \<and> ge_number currentAttempts (triggerThreshold (settings c)) then
               (let img = captureIntruder env c in
                CaptureIntruder img #
                (if truthy img then
                   (let newLog = \<lparr>id_log = toString (Date_now env 0),
                                   timestamp = Date_now env 1,
                                   imageData = the img,
                                   attemptNumber = currentAttempts,
                                   aiAnalysis = None\<rparr>;
                        updatedLogs = newLog # logs c in
                    [Update (SetLogs updatedLogs),
                     LocalStorage_setItem LOGS_STORAGE_KEY (stringify_logs json updatedLogs)] @
                    sendSecurityAlert c (the img) currentAttempts)
                 else []))
             else []) @
            [SetTimeout [SetInputPin '''', SetSecurityStatus IDLE] 1000]))
      else [])"

section \<open>Exceptions\<close>

text \<open>
  A computation that may throw returns \<open>Inl\<close> of the exception or \<open>Inr\<close> of its value.
  \<open>try_catch\<close> is \<^verbatim>\<open>try { body } catch (e) { handler(e) }\<close>; \<open>then_do\<close> is one
  statement after another: what follows a throw is not run.
\<close>

datatype exn = Exn string

definition try_catch :: "exn + 'a \<Rightarrow> (exn \<Rightarrow> exn + 'a) \<Rightarrow> exn + 'a" where
  "try_catch body handler = (case body of Inl e \<Rightarrow> handler e | Inr v \<Rightarrow> Inr v)"

definition then_do :: "exn + 'a list \<Rightarrow> exn + 'a list \<Rightarrow> exn + 'a list" where
  "then_do first rest =
     (case first of
        Inl e \<Rightarrow> Inl e
      | Inr xs \<Rightarrow> (case rest of Inl e \<Rightarrow> Inl e | Inr ys \<Rightarrow> Inr (xs @ ys)))"

section \<open>Initialization\<close>

text \<open>
  \<^verbatim>\<open>JSON.parse\<close> as the initialization effect calls it: the parse of the parameter
  record, with \<open>None\<close> turned into the \<^verbatim>\<open>SyntaxError\<close> it stands for.
\<close>

definition JSON_parse :: "(string \<Rightarrow> 'a option) \<Rightarrow> string \<Rightarrow> exn + 'a" where
  "JSON_parse p str = (case p str of None \<Rightarrow> Inl (Exn ''SyntaxError'') | Some v \<Rightarrow> Inr v)"

text \<open>
  The initialization effect: \<open>store\<close> is \<^verbatim>\<open>localStorage\<close> when it runs
  (\<^verbatim>\<open>getItem\<close> of a key that is not there is \<^verbatim>\<open>null\<close>, here \<open>None\<close>).
\<close>

definition initialize :: "JSON \<Rightarrow> (string \<rightharpoonup> string) \<Rightarrow> exn + effect list" where
  "initialize json store =
     (let savedPin = store PIN_STORAGE_KEY;
          savedLogs = store LOGS_STORAGE_KEY;
          savedSettings = store SETTINGS_STORAGE_KEY in
      then_do
        (if truthy savedLogs then
           try_catch
             (case JSON_parse (parse_logs json) (the savedLogs) of
                Inl e \<Rightarrow> Inl e
              | Inr v \<Rightarrow> Inr [Update (SetLogs v)])
             (\<lambda>e. Inr [Console_error ''Failed to parse logs''])
         else Inr [])
     (then_do
        (if truthy savedSettings then
           try_catch
             (case JSON_parse (parse_settings json) (the savedSettings) of
                Inl e \<Rightarrow> Inl e
              | Inr v \<Rightarrow> Inr [Update (SetSettings v)])
             (\<lambda>e. Inr [Console_error ''Failed to parse settings''])
         else Inr [])
        (if truthy savedPin then
           Inr [Update (SetStoredPin (the savedPin)), Update (SetAppState LOCKED)]
         else Inr [Update (SetAppState SETUP)])))"

text \<open>
  Startup: the cells are created with their initial values and the initialization effect
  runs on them. An exception that leaves the effect is a crash of startup, \<open>None\<close>.
\<close>

definition fresh :: "(string \<rightharpoonup> string) \<Rightarrow> World" where
  "fresh store =
     \<lparr>cells = initialState, streamRef_current = False, localStorage = store,
      console = [], dialogs = []\<rparr>"

definition startup :: "JSON \<Rightarrow> (string \<rightharpoonup> string) \<Rightarrow> World option" where
  "startup json store =
     (case initialize json store of
        Inl e \<Rightarrow> None
      | Inr es \<Rightarrow> Some (run es (fresh store)))"

section \<open>Settings\<close>

text \<open>
  \<^verbatim>\<open>parseInt\<close> with no radix, on a string of ASCII characters: leading white space is
  dropped, then a sign, then \<^verbatim>\<open>0x\<close> or \<^verbatim>\<open>0X\<close> selects radix 16; the longest run of
  digits of the radix is the value, and no digit at all is \<^verbatim>\<open>NaN\<close>.
\<close>

definition isWhiteSpace :: "char \<Rightarrow> bool" where
  "isWhiteSpace ch = (ch \<in> set [CHR 0x09, CHR 0x0A, CHR 0x0B, CHR 0x0C, CHR 0x0D, CHR 0x20])"

definition digitValue :: "char \<Rightarrow> nat option" where
  "digitValue ch =
     (let n = (of_char ch :: nat) in
      if 48 \<le> n \<and> n \<le> 57 then Some (n - 48)
      else if 97 \<le> n \<and> n \<le> 102 then Some (n - 87)
      else if 65 \<le> n \<and> n \<le> 70 then Some (n - 55)
      else None)"

definition isDigitOf :: "nat \<Rightarrow> char \<Rightarrow> bool" where
  "isDigitOf R ch = (case digitValue ch of None \<Rightarrow> False | Some d \<Rightarrow> d < R)"

definition parseInt :: "string \<Rightarrow> number" where
  "parseInt str =
     (let S = dropWhile isWhiteSpace str;
          negative = (S \<noteq> [] \<and> hd S = CHR ''-'');
          S1 = (if S \<noteq> [] \<and> (hd S = CHR ''+'' \<or> hd S = CHR ''-'') then tl S else S);
          hex = (take 2 S1 = ''0x'' \<or> take 2 S1 = ''0X'');
          R = (if hex then 16 else 10);
          S2 = (if hex then drop 2 S1 else S1);
          Z = takeWhile (isDigitOf R) S2 in
      if Z = [] then NaN
      else Num ((if negative then - 1 else 1)
                  * int (foldl (\<lambda>acc ch. acc * R + the (digitValue ch)) 0 Z)))"

text \<open>
  The three controls of the settings modal. The threshold control is an
  \<^verbatim>\<open>input type="range" min="1" max="5" step="1"\<close>: the value it hands to the handler
  is one of \<open>slider_values\<close>.
\<close>

definition slider_values :: "string list" where
  "slider_values = [''1'', ''2'', ''3'', ''4'', ''5'']"

definition onThresholdChange :: "string \<Rightarrow> State \<Rightarrow> effect list" where
  "onThresholdChange v c = [Update (SetSettings ((settings c)\<lparr>triggerThreshold := parseInt v\<rparr>))]"

definition onEmailChange :: "string \<Rightarrow> State \<Rightarrow> effect list" where
  "onEmailChange v c = [Update (SetSettings ((settings c)\<lparr>alertEmail := v\<rparr>))]"

definition onToggleCapture :: "State \<Rightarrow> effect list" where
  "onToggleCapture c =
     [Update (SetSettings ((settings c)\<lparr>enableCapture := \<not> enableCapture (settings c)\<rparr>))]"

text \<open>The effect that saves the settings when they change; \<open>c\<close> is the render it runs after.\<close>

definition saveSettings :: "JSON \<Rightarrow> State \<Rightarrow> effect list" where
  "saveSettings json c =
     [LocalStorage_setItem SETTINGS_STORAGE_KEY (stringify_settings json (settings c))]"

text \<open>The range the settings control gives the threshold.\<close>

fun threshold_in_range :: "number \<Rightarrow> bool" where
  "threshold_in_range NaN = False"
| "threshold_in_range (Num n) = (1 \<le> n \<and> n \<le> 5)"

section \<open>Analysis service (services/geminiService.ts)\<close>

record GenerateContentRequest =
  req_model :: string
  req_mimeType :: string
  req_data :: string
  req_text :: string

text \<open>The response: its \<^verbatim>\<open>text\<close> may be undefined.\<close>

record GenerateContentResponse =
  response_text :: "string option"

definition ANALYSIS_PROMPT :: string where
  "ANALYSIS_PROMPT = ''You are a security system AI. Analyze this image of a person attempting unauthorized access. Describe their approximate age, facial expression (e.g., confused, focused, malicious), current environment, and any distinctive features for a security log. Keep it concise (under 50 words).''"

text \<open>The replacement of a leading data URL prefix of a png, jpeg or jpg image by nothing.\<close>

definition cleanBase64 :: "string \<Rightarrow> string" where
  "cleanBase64 base64Image =
     (if take 22 base64Image = ''data:image/png;base64,'' then drop 22 base64Image
      else if take 23 base64Image = ''data:image/jpeg;base64,'' then drop 23 base64Image
      else if take 22 base64Image = ''data:image/jpg;base64,'' then drop 22 base64Image
      else base64Image)"

text \<open>
  \<^verbatim>\<open>analyzeIntruderImage\<close>: \<open>generateContent\<close> is the call of the remote service, which
  returns a response or throws. The result is the lines written with
  \<^verbatim>\<open>console.error\<close> and how the promise settles: \<open>Inr\<close> resolved, \<open>Inl\<close> rejected.
\<close>

definition analyzeIntruderImage ::
  "(GenerateContentRequest \<Rightarrow> exn + GenerateContentResponse) \<Rightarrow> string
     \<Rightarrow> string list \<times> (exn + string)" where
  "analyzeIntruderImage generateContent base64Image =
     (case generateContent
             \<lparr>req_model = ''gemini-2.5-flash'', req_mimeType = ''image/jpeg'',
              req_data = cleanBase64 base64Image, req_text = ANALYSIS_PROMPT\<rparr> of
        Inr response \<Rightarrow>
          ([], Inr (if truthy (response_text response) then the (response_text response)
                    else ''Analysis failed: No text returned.''))
      | Inl error \<Rightarrow>
          ([''Gemini analysis failed:''], Inr ''Security analysis currently unavailable.''))"

section \<open>Analysis attachment\<close>

text \<open>
  \<^verbatim>\<open>handleAnalyze\<close>: \<open>c\<close> is the render the handler closed over, and \<open>latency\<close> is the
  time the handler waits for the analysis to settle. Should the analysis reject, the
  handler stops at the \<^verbatim>\<open>await\<close>.
\<close>

definition handleAnalyze ::
  "JSON \<Rightarrow> (GenerateContentRequest \<Rightarrow> exn + GenerateContentResponse) \<Rightarrow> nat \<Rightarrow> State
     \<Rightarrow> IntruderLog \<Rightarrow> effect list" where
  "handleAnalyze json generateContent latency c log =
     Update (SetAnalyzingId (Some (id_log log))) #
     Await latency #
     (case analyzeIntruderImage generateContent (imageData log) of
        (errors, Inl e) \<Rightarrow> map Console_error errors
      | (errors, Inr analysis) \<Rightarrow>
          (let updatedLogs =
                 map (\<lambda>l. if id_log l = id_log log then l\<lparr>aiAnalysis := Some analysis\<rparr> else l)
                   (logs c) in
           map Console_error errors @
           [Update (SetLogs updatedLogs),
            LocalStorage_setItem LOGS_STORAGE_KEY (stringify_logs json updatedLogs),
            Update (SetAnalyzingId None)]))"

section \<open>Keypad and camera\<close>

text \<open>
  The keys of \<^verbatim>\<open>Keypad\<close> that call \<^verbatim>\<open>onKeyPress\<close>, each a string of one
  character, in the order of its \<^verbatim>\<open>keys\<close> array (the empty entry is a spacer and
  \<^verbatim>\<open>DEL\<close> calls \<^verbatim>\<open>onDelete\<close>).
\<close>

definition keypad_keys :: "string list" where
  "keypad_keys = map (\<lambda>ch. [ch]) ''1234567890''"

text \<open>\<^verbatim>\<open>handleKeyPress\<close>; \<open>c\<close> is the render the key press arrives in.\<close>

definition handleKeyPress :: "string \<Rightarrow> State \<Rightarrow> effect list" where
  "handleKeyPress key c =
     (if length (inputPin c) < 4 then [Update (SetInputPin (inputPin c @ key))] else [])"

text \<open>\<^verbatim>\<open>handleDelete\<close>: \<^verbatim>\<open>slice(0, -1)\<close> drops the last character, if there is one.\<close>

definition handleDelete :: "State \<Rightarrow> effect list" where
  "handleDelete c = [Update (SetInputPin (butlast (inputPin c)))]"

definition stopCamera :: "World \<Rightarrow> World" where
  "stopCamera w =
     (if streamRef_current w
      then w\<lparr>streamRef_current := False, cells := (cells w)\<lparr>cameraActive := False\<rparr>\<rparr>
      else w)"

text \<open>
  The part of \<^verbatim>\<open>startCamera\<close> after \<^verbatim>\<open>getUserMedia\<close> has settled: \<open>granted\<close> says
  whether it gave a stream or threw (permission denied, no device).
\<close>

definition cameraSettled :: "Env \<Rightarrow> bool \<Rightarrow> World \<Rightarrow> World" where
  "cameraSettled env granted w =
     (if granted then
        (let w1 = w\<lparr>streamRef_current := True\<rparr> in
         if videoRef_current env then w1\<lparr>cells := (cells w1)\<lparr>cameraActive := True\<rparr>\<rparr> else w1)
      else
        w\<lparr>cells := (cells w)\<lparr>cameraActive := False\<rparr>,
          console := console w @ [''Camera permission denied or error:'']\<rparr>)"

section \<open>The component as a machine\<close>

text \<open>
  A handler runs until it waits; what it does after the wait runs later, when other
  handlers may have run in between, and it then still uses the values of the render it
  closed over. \<open>before_await\<close> is the part of a handler's effects that runs at once,
  \<open>after_await\<close> the part that runs when the wait is over.
\<close>

fun before_await :: "effect list \<Rightarrow> effect list" where
  "before_await [] = []"
| "before_await (Await d # es) = []"
| "before_await (e # es) = e # before_await es"

fun after_await :: "effect list \<Rightarrow> effect list" where
  "after_await [] = []"
| "after_await (Await d # es) = es"
| "after_await (e # es) = after_await es"

text \<open>
  What is waiting to run: the callback of a timer with its setter calls; a
  \<^verbatim>\<open>handlePinSubmit\<close> in its verification delay, with the render it closed over; a
  \<^verbatim>\<open>handleAnalyze\<close> waiting for the service, with the render it closed over and its log.
\<close>

datatype task =
    Timer "update list"
  | Submit State
  | Analyze State IntruderLog

text \<open>The timers a list of effects registers.\<close>

fun timers_of :: "effect list \<Rightarrow> task list" where
  "timers_of [] = []"
| "timers_of (SetTimeout us d # es) = Timer us # timers_of es"
| "timers_of (e # es) = timers_of es"

text \<open>The component between two events: its world and the tasks that wait.\<close>

record Machine =
  world :: World
  pending :: "task list"

text \<open>
  The events that reach the component: a click or input on one of its controls, the settling
  of a camera request, a reload of the page, and the resumption of the task at a position
  of the waiting list (a timer fires, a delay ends, the service answers).
\<close>

datatype event =
    KeyPress string
  | DeletePress
  | ReLock
  | OpenSettings
  | CloseSettings
  | ThresholdInput string
  | EmailInput string
  | ToggleCapture
  | AnalyzeClick IntruderLog
  | CameraSettled bool
  | Reload
  | Resume nat

text \<open>
  Which events the rendered view takes: the setup view shows the keypad, never disabled;
  the locked view shows it disabled unless the status is idle; the vault view shows the
  settings and lock buttons, the modal's controls while it is open, and an analyze button
  for each log that has no analysis and is not being analyzed. A camera request may settle
  at any time.
\<close>

fun enabled :: "event \<Rightarrow> State \<Rightarrow> bool" where
  "enabled (KeyPress key) c =
     (key \<in> set keypad_keys
      \<and> (appState c = SETUP \<or> (appState c = LOCKED \<and> securityStatus c = IDLE)))"
| "enabled DeletePress c =
     (appState c = SETUP \<or> (appState c = LOCKED \<and> securityStatus c = IDLE))"
| "enabled ReLock c = (appState c = UNLOCKED)"
| "enabled OpenSettings c = (appState c = UNLOCKED)"
| "enabled CloseSettings c = (appState c = UNLOCKED \<and> showSettings c)"
| "enabled (ThresholdInput v) c =
     (appState c = UNLOCKED \<and> showSettings c \<and> v \<in> set slider_values)"
| "enabled (EmailInput v) c = (appState c = UNLOCKED \<and> showSettings c)"
| "enabled ToggleCapture c = (appState c = UNLOCKED \<and> showSettings c)"
| "enabled (AnalyzeClick log) c =
     (appState c = UNLOCKED \<and> log \<in> set (logs c) \<and> \<not> truthy (aiAnalysis log)
      \<and> analyzingId c \<noteq> Some (id_log log))"
| "enabled (CameraSettled granted) c = True"
| "enabled Reload c = True"
| "enabled (Resume i) c = True"

text \<open>
  The events the machine takes: those the view takes; a resumption needs a task at its
  position. Any waiting task may be resumed next: the orders in which the browser lets
  timers and delays end are among the orders this allows.
\<close>

fun takes :: "event \<Rightarrow> Machine \<Rightarrow> bool" where
  "takes (Resume i) m = (i < length (pending m))"
| "takes e m = enabled e (cells (world m))"

text \<open>
  The effects of the handler that a click or an input calls; \<open>c\<close> is the render the event
  arrives in.
\<close>

fun handler ::
  "JSON \<Rightarrow> (GenerateContentRequest \<Rightarrow> exn + GenerateContentResponse) \<Rightarrow> event \<Rightarrow> State
     \<Rightarrow> effect list" where
  "handler json gen (KeyPress key) c = handleKeyPress key c"
| "handler json gen DeletePress c = handleDelete c"
| "handler json gen ReLock c = [Update (SetAppState LOCKED)]"
| "handler json gen OpenSettings c = [Update (SetShowSettings True)]"
| "handler json gen CloseSettings c = [Update (SetShowSettings False)]"
| "handler json gen (ThresholdInput v) c = onThresholdChange v c"
| "handler json gen (EmailInput v) c = onEmailChange v c"
| "handler json gen ToggleCapture c = onToggleCapture c"
| "handler json gen (AnalyzeClick log) c = handleAnalyze json gen 0 c log"
| "handler json gen e c = []"

text \<open>The task a handler leaves waiting at its \<^verbatim>\<open>await\<close>.\<close>

fun awaited :: "event \<Rightarrow> State \<Rightarrow> task list" where
  "awaited (AnalyzeClick log) c = [Analyze c log]"
| "awaited e c = []"

text \<open>
  The effects a task runs when it is resumed; \<open>env\<close> is what the refs and the clock give
  at that time, while the cells are those of the render the task closed over.
\<close>

fun task_effects ::
  "JSON \<Rightarrow> (GenerateContentRequest \<Rightarrow> exn + GenerateContentResponse) \<Rightarrow> Env \<Rightarrow> task
     \<Rightarrow> effect list" where
  "task_effects json gen env (Timer us) = map Update us"
| "task_effects json gen env (Submit c) = after_await (handlePinSubmit json env c)"
| "task_effects json gen env (Analyze c log) = after_await (handleAnalyze json gen 0 c log)"

text \<open>The effects that an event runs at once, and the waiting list without the resumed task.\<close>

fun step_effects ::
  "JSON \<Rightarrow> (GenerateContentRequest \<Rightarrow> exn + GenerateContentResponse) \<Rightarrow> Env \<Rightarrow> event
     \<Rightarrow> Machine \<Rightarrow> effect list" where
  "step_effects json gen env (Resume i) m = task_effects json gen env (pending m ! i)"
| "step_effects json gen env e m = before_await (handler json gen e (cells (world m)))"

fun remaining :: "event \<Rightarrow> task list \<Rightarrow> task list" where
  "remaining (Resume i) ts = take i ts @ drop (Suc i) ts"
| "remaining e ts = ts"

text \<open>
  The effects of the component that run after the render that a batch of setter calls
  \<open>es\<close> causes; \<open>w\<close> is the world of the render before, \<open>m\<close> the machine with the new
  render. The settings are saved when a setter call replaced them. The camera is stopped
  when the mode has changed (the clean-up of the camera effect; the request it then makes in
  the locked mode settles as a later \<open>CameraSettled\<close> event). When the input has changed
  and is four characters long, the \<^verbatim>\<open>handlePinSubmit\<close> of the new render starts: it
  runs to its \<^verbatim>\<open>await\<close> and waits, closed over the new render.
\<close>

fun sets_settings :: "effect \<Rightarrow> bool" where
  "sets_settings (Update (SetSettings v)) = True"
| "sets_settings e = False"

definition after_render :: "JSON \<Rightarrow> Env \<Rightarrow> effect list \<Rightarrow> World \<Rightarrow> Machine \<Rightarrow> Machine" where
  "after_render json env es w m =
     (let c = cells (world m);
          w1 = (if list_ex sets_settings es
                then fold exec (saveSettings json c) (world m) else world m);
          w2 = (if appState c \<noteq> appState (cells w) then stopCamera w1 else w1) in
      if inputPin c \<noteq> inputPin (cells w) \<and> length (inputPin c) = 4
      then m\<lparr>world := fold exec (before_await (handlePinSubmit json env c)) w2,
              pending := pending m @ [Submit c]\<rparr>
      else m\<lparr>world := w2\<rparr>)"

text \<open>
  A load of the page: nothing waits; the initialization effect runs on fresh cells, then
  the saving effect of the first render (which writes the default settings), then the
  effects of the render that the initialization caused.
\<close>

definition reload :: "JSON \<Rightarrow> Env \<Rightarrow> (string \<rightharpoonup> string) \<Rightarrow> Machine" where
  "reload json env store =
     (case initialize json store of
        Inl e \<Rightarrow> \<lparr>world = fresh store, pending = []\<rparr>
      | Inr es \<Rightarrow>
          after_render json env es (fresh store)
            \<lparr>world = fold exec (saveSettings json initialState) (run es (fresh store)),
             pending = []\<rparr>)"

text \<open>
  One step of the component. An event that is not taken changes nothing. A click or an
  input runs its handler on the current render up to the handler's \<^verbatim>\<open>await\<close>; a
  resumption runs what the task does after its wait. The timers that the effects register
  and the task that the handler leaves waiting join the waiting list, and the effects of
  the new render run. No handler runs to its end before other events are taken: what
  follows a wait is a step of its own.
\<close>

definition step ::
  "JSON \<Rightarrow> (GenerateContentRequest \<Rightarrow> exn + GenerateContentResponse) \<Rightarrow> Env \<times> event
     \<Rightarrow> Machine \<Rightarrow> Machine" where
  "step json gen ee m =
     (let env = fst ee; e = snd ee in
      if \<not> takes e m then m
      else case e of
        CameraSettled granted \<Rightarrow> m\<lparr>world := cameraSettled env granted (world m)\<rparr>
      | Reload \<Rightarrow> reload json env (localStorage (world m))
      | _ \<Rightarrow>
          (let es = step_effects json gen env e m in
           after_render json env es (world m)
             \<lparr>world = fold exec es (world m),
              pending = remaining e (pending m) @ timers_of es
                          @ awaited e (cells (world m))\<rparr>))"

definition steps ::
  "JSON \<Rightarrow> (GenerateContentRequest \<Rightarrow> exn + GenerateContentResponse) \<Rightarrow> (Env \<times> event) list
     \<Rightarrow> Machine \<Rightarrow> Machine" where
  "steps json gen evs m = fold (step json gen) evs m"

text \<open>The worlds a list of effects passes through, the first and the last included.\<close>

fun states_from :: "effect list \<Rightarrow> World \<Rightarrow> World list" where
  "states_from [] w = [w]"
| "states_from (e # es) w = w # states_from es (exec e w)"

section \<open>Properties observed\<close>

text \<open>The condition of line 192 on the render \<open>c\<close>, with the counter already incremented.\<close>

definition qualifies :: "State \<Rightarrow> bool" where
  "qualifies c =
     (enableCapture (settings c)
      \<and> ge_number (sessionFailedAttempts c + 1) (triggerThreshold (settings c)))"

fun is_capture :: "effect \<Rightarrow> bool" where
  "is_capture (CaptureIntruder r) = True"
| "is_capture e = False"

text \<open>The log entry a failed attempt of the render \<open>c\<close> makes from an image.\<close>

definition newLog :: "Env \<Rightarrow> State \<Rightarrow> IntruderLog" where
  "newLog env c =
     \<lparr>id_log = toString (Date_now env 0), timestamp = Date_now env 1,
      imageData = the (captureIntruder env c),
      attemptNumber = sessionFailedAttempts c + 1, aiAnalysis = None\<rparr>"

text \<open>A stored passcode exists in the locked and in the vault mode.\<close>

definition pin_invariant :: "State \<Rightarrow> bool" where
  "pin_invariant c = (appState c = SETUP \<or> storedPin c \<noteq> None)"

text \<open>
  A list of effects keeps \<open>pin_invariant\<close> when it leaves the setup mode only with a
  stored passcode; \<open>b\<close> says whether one is stored before the list runs.
\<close>

fun keeps_pin :: "bool \<Rightarrow> effect list \<Rightarrow> bool" where
  "keeps_pin b [] = True"
| "keeps_pin b (Update (SetStoredPin p) # es) = keeps_pin True es"
| "keeps_pin b (Update (SetAppState a) # es) = ((a = SETUP \<or> b) \<and> keeps_pin b es)"
| "keeps_pin b (e # es) = keeps_pin b es"

text \<open>The status changes of a timeline with their times.\<close>

fun timed_status :: "nat \<times> effect \<Rightarrow> (nat \<times> SecurityStatus) option" where
  "timed_status (t, Update (SetSecurityStatus v)) = Some (t, v)"
| "timed_status te = None"

definition status_times :: "effect list \<Rightarrow> (nat \<times> SecurityStatus) list" where
  "status_times es = List.map_filter timed_status (timeline es)"

section \<open>Example worlds\<close>

text \<open>A camera that is ready and a clock.\<close>

definition env_ex :: Env where
  "env_ex =
     \<lparr>videoRef_current = True, canvasRef_current = True, getContext_2d = True,
      toDataURL = ''data:image/jpeg;base64,AAAA'',
      Date_now = (\<lambda>k. 1700000000000 + int k)\<rparr>"

text \<open>A stored settings object whose threshold is 9.\<close>

definition stored_settings_9 :: string where
  "stored_settings_9 = ''{\"alertEmail\":\"\",\"triggerThreshold\":9,\"enableCapture\":true}''"

text \<open>
  A stand-in for the platform's JSON on the texts the examples use: it parses the empty
  array and \<open>stored_settings_9\<close>, and throws on every other text.
\<close>

definition json_ex :: JSON where
  "json_ex =
     \<lparr>stringify_logs = (\<lambda>ls. concat (map (\<lambda>l. id_log l @ '';'') ls)),
      stringify_settings = alertEmail,
      parse_logs = (\<lambda>str. if str = ''[]'' then Some [] else None),
      parse_settings =
        (\<lambda>str. if str = stored_settings_9
               then Some \<lparr>alertEmail = '''', triggerThreshold = Num 9, enableCapture = True\<rparr>
               else None)\<rparr>"

text \<open>A locked render with a wrong input, one with the right input, and a setup render.\<close>

definition locked_ex :: State where
  "locked_ex =
     initialState\<lparr>appState := LOCKED, inputPin := ''0000'', storedPin := Some ''1234'',
       cameraActive := True, settings := DEFAULT_SETTINGS\<lparr>alertEmail := ''a@b.c''\<rparr>\<rparr>"

definition granted_ex :: State where
  "granted_ex = locked_ex\<lparr>inputPin := ''1234'', sessionFailedAttempts := 2\<rparr>"

definition setup_ex :: State where
  "setup_ex = initialState\<lparr>inputPin := ''1234''\<rparr>"

definition world_of :: "State \<Rightarrow> World" where
  "world_of c =
     \<lparr>cells = c, streamRef_current = cameraActive c, localStorage = Map.empty,
      console = [], dialogs = []\<rparr>"

text \<open>The locked render with the camera inactive, and the render of a second wrong input.\<close>

definition no_camera_ex :: State where
  "no_camera_ex = locked_ex\<lparr>cameraActive := False\<rparr>"



text \<open>A remote service that is down, and one that answers without text.\<close>

definition failing_service :: "GenerateContentRequest \<Rightarrow> exn + GenerateContentResponse" where
  "failing_service req = Inl (Exn ''503 Service Unavailable'')"

definition silent_service :: "GenerateContentRequest \<Rightarrow> exn + GenerateContentResponse" where
  "silent_service req = Inr \<lparr>response_text = None\<rparr>"

text \<open>The request \<^verbatim>\<open>analyzeIntruderImage\<close> sends for an image.\<close>

definition analysis_request :: "string \<Rightarrow> GenerateContentRequest" where
  "analysis_request base64Image =
     \<lparr>req_model = ''gemini-2.5-flash'', req_mimeType = ''image/jpeg'',
      req_data = cleanBase64 base64Image, req_text = ANALYSIS_PROMPT\<rparr>"

text \<open>A store with a passcode and with texts that are not JSON under the other two keys.\<close>

definition store_malformed_ex :: "string \<rightharpoonup> string" where
  "store_malformed_ex =
     map_of [(PIN_STORAGE_KEY, ''1234''), (LOGS_STORAGE_KEY, ''[{''),
             (SETTINGS_STORAGE_KEY, ''{triggerThreshold'')]"

text \<open>A store that holds \<open>stored_settings_9\<close> and nothing else.\<close>

definition store_9_ex :: "string \<rightharpoonup> string" where
  "store_9_ex = map_of [(SETTINGS_STORAGE_KEY, stored_settings_9)]"

text \<open>Effects that happen where they stand: neither a wait nor a timer.\<close>

fun is_sync :: "effect \<Rightarrow> bool" where
  "is_sync (Await d) = False"
| "is_sync (SetTimeout us d) = False"
| "is_sync e = True"

text \<open>Setter calls and effects that leave the settings cell alone.\<close>

fun update_keeps_settings :: "update \<Rightarrow> bool" where
  "update_keeps_settings (SetSettings v) = False"
| "update_keeps_settings u = True"

fun keeps_settings :: "effect \<Rightarrow> bool" where
  "keeps_settings (Update u) = update_keeps_settings u"
| "keeps_settings (SetTimeout us d) = list_all update_keeps_settings us"
| "keeps_settings e = True"

text \<open>
  The machine after a load of the page from \<open>store\<close> and the events \<open>evs\<close>; \<open>env\<close> is
  what the refs and the clock give at the load.
\<close>

definition reached ::
  "JSON \<Rightarrow> (GenerateContentRequest \<Rightarrow> exn + GenerateContentResponse) \<Rightarrow> Env
     \<Rightarrow> (string \<rightharpoonup> string) \<Rightarrow> (Env \<times> event) list \<Rightarrow> Machine" where
  "reached json gen env store evs = steps json gen evs (reload json env store)"

text \<open>Tasks that leave the settings cell alone.\<close>

fun task_keeps_settings :: "task \<Rightarrow> bool" where
  "task_keeps_settings (Timer us) = list_all update_keeps_settings us"
| "task_keeps_settings t = True"

text \<open>
  What holds of a waiting task for the stored passcode; \<open>b\<close> says whether one is stored
  now. A timer's setter calls keep \<open>pin_invariant\<close>; a waiting submission closed over a
  render in which \<open>pin_invariant\<close> held, and over a render of the setup mode unless a
  passcode is stored now.
\<close>

fun task_invariant :: "bool \<Rightarrow> task \<Rightarrow> bool" where
  "task_invariant b (Timer us) = keeps_pin b (map Update us)"
| "task_invariant b (Submit c) = (pin_invariant c \<and> (appState c = SETUP \<or> b))"
| "task_invariant b (Analyze c log) = True"

definition machine_invariant :: "Machine \<Rightarrow> bool" where
  "machine_invariant m =
     (pin_invariant (cells (world m))
      \<and> list_all (task_invariant (storedPin (cells (world m)) \<noteq> None)) (pending m))"

text \<open>
  On an empty store: the key presses 7, 8, 9, 0 start a submission; the delete key and the
  key 1 start a second one while the first still waits; then both are resumed.
\<close>

definition overlap_ex :: "(Env \<times> event) list" where
  "overlap_ex =
     map (Pair env_ex)
       [KeyPress ''7'', KeyPress ''8'', KeyPress ''9'', KeyPress ''0'', DeletePress,
        KeyPress ''1'', Resume 0, Resume 0]"

text \<open>After that, the key presses of a wrong pin in the locked mode, which is left waiting.\<close>

definition waiting_ex :: "(Env \<times> event) list" where
  "waiting_ex =
     overlap_ex @
     map (Pair env_ex) [KeyPress ''0'', KeyPress ''0'', KeyPress ''0'', KeyPress ''0'']"

text \<open>
  On an empty store: the passcode 1234 is set and the vault is unlocked with it (each
  submission, and the timer of the unlock, resumed in turn), and the settings modal is
  opened.
\<close>

definition modal_ex :: "(Env \<times> event) list" where
  "modal_ex =
     map (Pair env_ex)
       [KeyPress ''1'', KeyPress ''2'', KeyPress ''3'', KeyPress ''4'', Resume 0,
        KeyPress ''1'', KeyPress ''2'', KeyPress ''3'', KeyPress ''4'', Resume 0, Resume 0,
        OpenSettings]"

section \<open>The branches of handlePinSubmit\<close>

lemma hps_breach:
  assumes "appState c = LOCKED" "Some (inputPin c) \<noteq> storedPin c"
  shows "handlePinSubmit json env c =
     [Update (SetSecurityStatus CHECKING), Await 600,
      Update (SetSecurityStatus BREACH_DETECTED),
      Update (SetSessionFailedAttempts (sessionFailedAttempts c + 1))] @
     (if qualifies c then
        CaptureIntruder (captureIntruder env c) #
        (if truthy (captureIntruder env c) then
           [Update (SetLogs (newLog env c # logs c)),
            LocalStorage_setItem LOGS_STORAGE_KEY (stringify_logs json (newLog env c # logs c))] @
           sendSecurityAlert c (the (captureIntruder env c)) (sessionFailedAttempts c + 1)
         else [])
      else []) @
     [SetTimeout [SetInputPin '''', SetSecurityStatus IDLE] 1000]"
  using assms by (simp add: handlePinSubmit_def Let_def qualifies_def newLog_def)

lemma hps_granted:
  assumes "appState c = LOCKED" "Some (inputPin c) = storedPin c"
  shows "handlePinSubmit json env c =
     [Update (SetSecurityStatus CHECKING), Await 600,
      Update (SetSecurityStatus GRANTED), Update (SetSessionFailedAttempts 0),
      SetTimeout [SetAppState UNLOCKED, SetInputPin '''', SetSecurityStatus IDLE] 500]"
  using assms by (simp add: handlePinSubmit_def)

lemma hps_setup:
  assumes "appState c = SETUP" "length (inputPin c) = 4"
  shows "handlePinSubmit json env c =
     [Update (SetSecurityStatus CHECKING), Await 600,
      LocalStorage_setItem PIN_STORAGE_KEY (inputPin c),
      Update (SetStoredPin (inputPin c)), Update (SetAppState LOCKED),
      Update (SetInputPin ''''), Update (SetSecurityStatus IDLE),
      Window_alert ''Passcode set successfully! System is now armed.'']"
  using assms by (simp add: handlePinSubmit_def)

lemma qualifies_next:
  "qualifies c \<Longrightarrow> settings c' = settings c
     \<Longrightarrow> sessionFailedAttempts c' = sessionFailedAttempts c + 1 \<Longrightarrow> qualifies c'"
  by (cases "triggerThreshold (settings c)") (auto simp: qualifies_def)

section \<open>Capture policy\<close>

text \<open>
  Claim C1. In the locked mode, a failed attempt calls the capture if and only if capture is
  enabled and the incremented counter of failed attempts has reached the threshold, and it
  calls it once. The condition is evaluated on every failed attempt: an attempt that
  qualifies leaves a state in which the next failed attempt qualifies too. An attempt that
  qualifies and gets an image puts one new log in front of the list, and the attempt number
  of that log is the value the counter has after the attempt.
\<close>

theorem C1_capture_policy:
  assumes "appState c = LOCKED" and "Some (inputPin c) \<noteq> storedPin c" and "cells w = c"
  shows "((\<exists>r. CaptureIntruder r \<in> set (handlePinSubmit json env c)) \<longleftrightarrow>
            (enableCapture (settings c) \<and>
             ge_number (sessionFailedAttempts c + 1) (triggerThreshold (settings c))))
       \<and> length (filter is_capture (handlePinSubmit json env c)) = (if qualifies c then 1 else 0)
       \<and> sessionFailedAttempts (cells (run (handlePinSubmit json env c) w))
           = sessionFailedAttempts c + 1
       \<and> logs (cells (run (handlePinSubmit json env c) w)) =
           (if qualifies c \<and> truthy (captureIntruder env c) then newLog env c # logs c
            else logs c)
       \<and> attemptNumber (newLog env c)
           = sessionFailedAttempts (cells (run (handlePinSubmit json env c) w))
       \<and> settings (cells (run (handlePinSubmit json env c) w)) = settings c
       \<and> (qualifies c \<longrightarrow> qualifies (cells (run (handlePinSubmit json env c) w)))"
proof -
  let ?es = "handlePinSubmit json env c"
  note shape = hps_breach [OF assms(1,2), of json env]
  have a: "(\<exists>r. CaptureIntruder r \<in> set ?es) \<longleftrightarrow> qualifies c"
    by (auto simp: shape sendSecurityAlert_def)
  have b: "length (filter is_capture ?es) = (if qualifies c then 1 else 0)"
    by (simp add: shape sendSecurityAlert_def)
  have c: "sessionFailedAttempts (cells (run ?es w)) = sessionFailedAttempts c + 1"
    using assms(3) by (simp add: shape sendSecurityAlert_def run_def timeline_def)
  have d: "logs (cells (run ?es w)) =
           (if qualifies c \<and> truthy (captureIntruder env c) then newLog env c # logs c
            else logs c)"
    using assms(3) by (simp add: shape sendSecurityAlert_def run_def timeline_def)
  have e: "settings (cells (run ?es w)) = settings c"
    using assms(3) by (simp add: shape sendSecurityAlert_def run_def timeline_def)
  have f: "attemptNumber (newLog env c) = sessionFailedAttempts c + 1"
    by (simp add: newLog_def)
  have g: "qualifies c \<longrightarrow> qualifies (cells (run ?es w))"
    using qualifies_next [OF _ e c] by blast
  show ?thesis
    using a b c d e f g by (simp add: qualifies_def)
qed

theorem C1_capture_policy_witness:
  "appState locked_ex = LOCKED \<and> Some (inputPin locked_ex) \<noteq> storedPin locked_ex
   \<and> cells (world_of locked_ex) = locked_ex
   \<and> qualifies locked_ex
   \<and> length (filter is_capture (handlePinSubmit json_ex env_ex locked_ex)) = 1
   \<and> sessionFailedAttempts
        (cells (run (handlePinSubmit json_ex env_ex locked_ex) (world_of locked_ex))) = 1
   \<and> map attemptNumber
        (logs (cells (run (handlePinSubmit json_ex env_ex locked_ex) (world_of locked_ex)))) = [1]
   \<and> qualifies (cells (run (handlePinSubmit json_ex env_ex locked_ex) (world_of locked_ex)))"
proof -
  have h: "appState locked_ex = LOCKED" "Some (inputPin locked_ex) \<noteq> storedPin locked_ex"
      "cells (world_of locked_ex) = locked_ex"
    by (simp_all add: locked_ex_def world_of_def initialState_def)
  have q: "qualifies locked_ex"
    by (simp add: qualifies_def locked_ex_def initialState_def DEFAULT_SETTINGS_def)
  have t: "truthy (captureIntruder env_ex locked_ex)"
    by (simp add: captureIntruder_def env_ex_def locked_ex_def initialState_def)
  have l: "logs locked_ex = []" "sessionFailedAttempts locked_ex = 0"
    by (simp_all add: locked_ex_def initialState_def)
  show ?thesis
    using C1_capture_policy [OF h, of json_ex env_ex] h q t l
    by (simp add: newLog_def)
qed

section \<open>Failed attempt\<close>



section \<open>Unlock\<close>

text \<open>
  Claim C3. In the locked mode, a submitted pin that equals the stored passcode resets the
  counter of failed attempts to 0 and shows the granted status after the verification
  delay; the mode becomes unlocked, the input is cleared and the status returns to idle
  500 ms after that, and not before.
\<close>

theorem C3_unlock:
  assumes "appState c = LOCKED" and "Some (inputPin c) = storedPin c" and "cells w = c"
  shows "sessionFailedAttempts (cells (run (handlePinSubmit json env c) w)) = 0
       \<and> appState (cells (run (handlePinSubmit json env c) w)) = UNLOCKED
       \<and> inputPin (cells (run (handlePinSubmit json env c) w)) = ''''
       \<and> securityStatus (cells (run (handlePinSubmit json env c) w)) = IDLE
       \<and> status_times (handlePinSubmit json env c)
           = [(0, CHECKING), (600, GRANTED), (1100, IDLE)]
       \<and> filter (\<lambda>te. fst te < 1100) (timeline (handlePinSubmit json env c)) =
           [(0, Update (SetSecurityStatus CHECKING)), (600, Update (SetSecurityStatus GRANTED)),
            (600, Update (SetSessionFailedAttempts 0))]
       \<and> filter (\<lambda>te. 1100 \<le> fst te) (timeline (handlePinSubmit json env c)) =
           [(1100, Update (SetAppState UNLOCKED)), (1100, Update (SetInputPin '''')),
            (1100, Update (SetSecurityStatus IDLE))]"
proof -
  let ?es = "handlePinSubmit json env c"
  note shape = hps_granted [OF assms(1,2), of json env]
  have tl: "timeline ?es =
     [(0, Update (SetSecurityStatus CHECKING)), (600, Update (SetSecurityStatus GRANTED)),
      (600, Update (SetSessionFailedAttempts 0)),
      (1100, Update (SetAppState UNLOCKED)), (1100, Update (SetInputPin '''')),
      (1100, Update (SetSecurityStatus IDLE))]"
    by (simp add: shape timeline_def)
  show ?thesis
    by (simp add: run_def tl status_times_def List.map_filter_simps)
qed

theorem C3_unlock_witness:
  "appState granted_ex = LOCKED \<and> Some (inputPin granted_ex) = storedPin granted_ex
   \<and> cells (world_of granted_ex) = granted_ex
   \<and> sessionFailedAttempts granted_ex = 2
   \<and> sessionFailedAttempts
        (cells (run (handlePinSubmit json_ex env_ex granted_ex) (world_of granted_ex))) = 0
   \<and> appState (cells (run (handlePinSubmit json_ex env_ex granted_ex) (world_of granted_ex)))
        = UNLOCKED"
proof -
  have h: "appState granted_ex = LOCKED" "Some (inputPin granted_ex) = storedPin granted_ex"
      "cells (world_of granted_ex) = granted_ex"
    by (simp_all add: granted_ex_def locked_ex_def world_of_def initialState_def)
  have l: "sessionFailedAttempts granted_ex = 2"
    by (simp add: granted_ex_def)
  show ?thesis
    using C3_unlock [OF h, of json_ex env_ex] h l by simp
qed

section \<open>Setup\<close>

text \<open>
  Claim C4. In the setup mode, a submitted pin of four characters is written to the store
  under the passcode key and becomes the stored passcode, the mode becomes locked, the
  input is cleared and the status returns to idle.
\<close>

theorem C4_setup:
  assumes "appState c = SETUP" and "length (inputPin c) = 4" and "cells w = c"
  shows "localStorage (run (handlePinSubmit json env c) w) PIN_STORAGE_KEY = Some (inputPin c)
       \<and> storedPin (cells (run (handlePinSubmit json env c) w)) = Some (inputPin c)
       \<and> appState (cells (run (handlePinSubmit json env c) w)) = LOCKED
       \<and> inputPin (cells (run (handlePinSubmit json env c) w)) = ''''
       \<and> securityStatus (cells (run (handlePinSubmit json env c) w)) = IDLE
       \<and> status_times (handlePinSubmit json env c) = [(0, CHECKING), (600, IDLE)]"
proof -
  let ?es = "handlePinSubmit json env c"
  note shape = hps_setup [OF assms(1,2), of json env]
  show ?thesis
    by (simp add: shape run_def timeline_def status_times_def List.map_filter_simps)
qed

theorem C4_setup_witness:
  "appState setup_ex = SETUP \<and> length (inputPin setup_ex) = 4
   \<and> cells (world_of setup_ex) = setup_ex
   \<and> localStorage (run (handlePinSubmit json_ex env_ex setup_ex) (world_of setup_ex))
        PIN_STORAGE_KEY = Some ''1234''
   \<and> appState (cells (run (handlePinSubmit json_ex env_ex setup_ex) (world_of setup_ex)))
        = LOCKED"
proof -
  have h: "appState setup_ex = SETUP" "length (inputPin setup_ex) = 4"
      "cells (world_of setup_ex) = setup_ex"
    by (simp_all add: setup_ex_def world_of_def initialState_def)
  have l: "inputPin setup_ex = ''1234''"
    by (simp add: setup_ex_def)
  show ?thesis
    using C4_setup [OF h, of json_ex env_ex] h l by simp
qed

section \<open>Capture without an image\<close>


text \<open>
  Claim C5. When a failed attempt qualifies for capture and the capture gives no image (the
  camera is not active, as after a denied permission; an element ref is empty; the canvas
  gives no context), the attempt makes no log, writes nothing to the store, sends no alert
  (no console line, no alert message), shows no dialog, and the status still goes through
  breach detected and back to idle with the input cleared.
\<close>

theorem C5_no_image:
  assumes "appState c = LOCKED" and "Some (inputPin c) \<noteq> storedPin c" and "qualifies c"
    and "\<not> truthy (captureIntruder env c)" and "cells w = c"
  shows "handlePinSubmit json env c =
           [Update (SetSecurityStatus CHECKING), Await 600,
            Update (SetSecurityStatus BREACH_DETECTED),
            Update (SetSessionFailedAttempts (sessionFailedAttempts c + 1)),
            CaptureIntruder (captureIntruder env c),
            SetTimeout [SetInputPin '''', SetSecurityStatus IDLE] 1000]
       \<and> logs (cells (run (handlePinSubmit json env c) w)) = logs c
       \<and> localStorage (run (handlePinSubmit json env c) w) = localStorage w
       \<and> console (run (handlePinSubmit json env c) w) = console w
       \<and> dialogs (run (handlePinSubmit json env c) w) = dialogs w
       \<and> alertMessage (cells (run (handlePinSubmit json env c) w)) = alertMessage c
       \<and> status_trace (securityStatus c) (handlePinSubmit json env c)
           = [securityStatus c, CHECKING, BREACH_DETECTED, IDLE]
       \<and> status_times (handlePinSubmit json env c)
           = [(0, CHECKING), (600, BREACH_DETECTED), (1600, IDLE)]
       \<and> inputPin (cells (run (handlePinSubmit json env c) w)) = ''''
       \<and> securityStatus (cells (run (handlePinSubmit json env c) w)) = IDLE
       \<and> captureIntruder env (c\<lparr>cameraActive := False\<rparr>) = None
       \<and> cameraActive (cells (cameraSettled env False w)) = False
       \<and> captureIntruder (env\<lparr>videoRef_current := False\<rparr>) c = None
       \<and> captureIntruder (env\<lparr>canvasRef_current := False\<rparr>) c = None
       \<and> captureIntruder (env\<lparr>getContext_2d := False\<rparr>) c = None"
proof -
  let ?es = "handlePinSubmit json env c"
  have shape: "?es =
           [Update (SetSecurityStatus CHECKING), Await 600,
            Update (SetSecurityStatus BREACH_DETECTED),
            Update (SetSessionFailedAttempts (sessionFailedAttempts c + 1)),
            CaptureIntruder (captureIntruder env c),
            SetTimeout [SetInputPin '''', SetSecurityStatus IDLE] 1000]"
    using assms(3,4) by (simp add: hps_breach [OF assms(1,2)])
  have tl: "timeline ?es =
           [(0, Update (SetSecurityStatus CHECKING)),
            (600, Update (SetSecurityStatus BREACH_DETECTED)),
            (600, Update (SetSessionFailedAttempts (sessionFailedAttempts c + 1))),
            (600, CaptureIntruder (captureIntruder env c)),
            (1600, Update (SetInputPin '''')), (1600, Update (SetSecurityStatus IDLE))]"
    by (simp add: shape timeline_def)
  have a: "logs (cells (run ?es w)) = logs c" "localStorage (run ?es w) = localStorage w"
      "console (run ?es w) = console w" "dialogs (run ?es w) = dialogs w"
      "alertMessage (cells (run ?es w)) = alertMessage c"
      "inputPin (cells (run ?es w)) = ''''" "securityStatus (cells (run ?es w)) = IDLE"
    using assms(5) by (simp_all add: run_def tl)
  have b: "status_trace (securityStatus c) ?es = [securityStatus c, CHECKING, BREACH_DETECTED, IDLE]"
      "status_times ?es = [(0, CHECKING), (600, BREACH_DETECTED), (1600, IDLE)]"
    by (simp_all add: status_trace_def status_times_def tl List.map_filter_simps)
  have c: "captureIntruder env (c\<lparr>cameraActive := False\<rparr>) = None"
      "cameraActive (cells (cameraSettled env False w)) = False"
      "captureIntruder (env\<lparr>videoRef_current := False\<rparr>) c = None"
      "captureIntruder (env\<lparr>canvasRef_current := False\<rparr>) c = None"
      "captureIntruder (env\<lparr>getContext_2d := False\<rparr>) c = None"
    by (simp_all add: captureIntruder_def cameraSettled_def)
  show ?thesis
    using shape a b c by simp
qed

theorem C5_no_image_witness:
  "appState no_camera_ex = LOCKED \<and> Some (inputPin no_camera_ex) \<noteq> storedPin no_camera_ex
   \<and> qualifies no_camera_ex \<and> \<not> truthy (captureIntruder env_ex no_camera_ex)
   \<and> cells (world_of no_camera_ex) = no_camera_ex
   \<and> logs (cells (run (handlePinSubmit json_ex env_ex no_camera_ex) (world_of no_camera_ex))) = []
   \<and> localStorage (run (handlePinSubmit json_ex env_ex no_camera_ex) (world_of no_camera_ex))
        = Map.empty
   \<and> console (run (handlePinSubmit json_ex env_ex no_camera_ex) (world_of no_camera_ex)) = []
   \<and> securityStatus (cells (run (handlePinSubmit json_ex env_ex no_camera_ex) (world_of no_camera_ex)))
        = IDLE"
proof -
  have h: "appState no_camera_ex = LOCKED" "Some (inputPin no_camera_ex) \<noteq> storedPin no_camera_ex"
      "qualifies no_camera_ex" "\<not> truthy (captureIntruder env_ex no_camera_ex)"
      "cells (world_of no_camera_ex) = no_camera_ex"
    by (simp_all add: no_camera_ex_def locked_ex_def world_of_def initialState_def qualifies_def
        DEFAULT_SETTINGS_def captureIntruder_def)
  have l: "logs no_camera_ex = []" "localStorage (world_of no_camera_ex) = Map.empty"
      "console (world_of no_camera_ex) = []"
    by (simp_all add: no_camera_ex_def locked_ex_def world_of_def initialState_def)
  note r = C5_no_image [OF h, of json_ex]
  have a: "logs (cells (run (handlePinSubmit json_ex env_ex no_camera_ex) (world_of no_camera_ex)))
             = logs no_camera_ex"
    using r by blast
  have b: "localStorage (run (handlePinSubmit json_ex env_ex no_camera_ex) (world_of no_camera_ex))
             = localStorage (world_of no_camera_ex)"
    using r by blast
  have c: "console (run (handlePinSubmit json_ex env_ex no_camera_ex) (world_of no_camera_ex))
             = console (world_of no_camera_ex)"
    using r by blast
  have d: "securityStatus
             (cells (run (handlePinSubmit json_ex env_ex no_camera_ex) (world_of no_camera_ex)))
             = IDLE"
    using r by blast
  show ?thesis
    using h l a b c d by simp
qed

section \<open>Order of log, store and alert\<close>



section \<open>Analysis service\<close>

text \<open>
  Claim C7 as the specification states it: when the call of the service fails, the result
  is the string \<^verbatim>\<open>analysis unavailable\<close>. With a service that throws, the result is
  another string.
\<close>

theorem C7_fallback_counterexample:
  "snd (analyzeIntruderImage failing_service ''data:image/jpeg;base64,AAAA'')
     = Inr ''Security analysis currently unavailable.''
   \<and> snd (analyzeIntruderImage failing_service ''data:image/jpeg;base64,AAAA'')
     \<noteq> Inr ''analysis unavailable''"
  by (simp add: analyzeIntruderImage_def failing_service_def)

text \<open>
  Claim C7, amended. The analysis always resolves to a string and never rejects. When the
  call of the service throws, the string is
  \<^verbatim>\<open>Security analysis currently unavailable.\<close>; when the service answers, it is the
  text of the answer, or \<^verbatim>\<open>Analysis failed: No text returned.\<close> for an answer with
  no text or an empty one.
\<close>

theorem C7_analysis_resolves:
  "(\<exists>str. snd (analyzeIntruderImage generateContent base64Image) = Inr str)
   \<and> (\<forall>e. generateContent (analysis_request base64Image) = Inl e \<longrightarrow>
          snd (analyzeIntruderImage generateContent base64Image)
            = Inr ''Security analysis currently unavailable.'')
   \<and> (\<forall>r. generateContent (analysis_request base64Image) = Inr r \<longrightarrow>
          snd (analyzeIntruderImage generateContent base64Image)
            = Inr (if truthy (response_text r) then the (response_text r)
                   else ''Analysis failed: No text returned.''))"
  by (cases "generateContent (analysis_request base64Image)")
     (simp_all add: analyzeIntruderImage_def analysis_request_def)

theorem C7_analysis_resolves_witness:
  "failing_service (analysis_request ''data:image/jpeg;base64,AAAA'')
     = Inl (Exn ''503 Service Unavailable'')
   \<and> snd (analyzeIntruderImage failing_service ''data:image/jpeg;base64,AAAA'')
     = Inr ''Security analysis currently unavailable.''
   \<and> silent_service (analysis_request ''AAAA'') = Inr \<lparr>response_text = None\<rparr>
   \<and> snd (analyzeIntruderImage silent_service ''AAAA'') = Inr ''Analysis failed: No text returned.''"
proof -
  have a: "failing_service (analysis_request ''data:image/jpeg;base64,AAAA'')
     = Inl (Exn ''503 Service Unavailable'')"
    by (simp add: failing_service_def)
  have b: "silent_service (analysis_request ''AAAA'') = Inr \<lparr>response_text = None\<rparr>"
    by (simp add: silent_service_def)
  note r1 = C7_analysis_resolves [of failing_service "''data:image/jpeg;base64,AAAA''"]
  note r2 = C7_analysis_resolves [of silent_service "''AAAA''"]
  have c: "snd (analyzeIntruderImage failing_service ''data:image/jpeg;base64,AAAA'')
     = Inr ''Security analysis currently unavailable.''"
    using r1 a by blast
  have d: "snd (analyzeIntruderImage silent_service ''AAAA'') = Inr ''Analysis failed: No text returned.''"
    using r2 b by simp
  show ?thesis using a b c d by simp
qed

section \<open>Startup\<close>

lemma initialize_cases:
  "initialize json store =
     Inr ((if truthy (store LOGS_STORAGE_KEY) then
             (case parse_logs json (the (store LOGS_STORAGE_KEY)) of
                None \<Rightarrow> [Console_error ''Failed to parse logs'']
              | Some v \<Rightarrow> [Update (SetLogs v)])
           else []) @
          (if truthy (store SETTINGS_STORAGE_KEY) then
             (case parse_settings json (the (store SETTINGS_STORAGE_KEY)) of
                None \<Rightarrow> [Console_error ''Failed to parse settings'']
              | Some v \<Rightarrow> [Update (SetSettings v)])
           else []) @
          (if truthy (store PIN_STORAGE_KEY) then
             [Update (SetStoredPin (the (store PIN_STORAGE_KEY))), Update (SetAppState LOCKED)]
           else [Update (SetAppState SETUP)]))"
  by (simp add: initialize_def Let_def then_do_def try_catch_def JSON_parse_def
      split: option.splits)

lemma insort_key_min: "insort_key fst (0::nat, x) xs = (0, x) # xs"
  by (cases xs) simp_all

lemma sort_key_same: "sort_key fst (map (Pair (t::nat)) es) = map (Pair t) es"
proof (induction es)
  case Nil
  then show ?case by simp
next
  case (Cons e es)
  have "insort_key fst (t, e) (map (Pair t) es) = (t, e) # map (Pair t) es"
    by (cases es) simp_all
  with Cons show ?case by simp
qed

lemma schedule_sync: "list_all is_sync es \<Longrightarrow> schedule t es = map (Pair t) es"
  by (induction t es rule: schedule.induct) simp_all

lemma run_sync: "list_all is_sync es \<Longrightarrow> run es w = fold exec es w"
  by (simp add: run_def timeline_def schedule_sync sort_key_same comp_def)

lemma timeline_Cons: "is_sync e \<Longrightarrow> timeline (e # es) = (0, e) # timeline es"
  by (cases e) (simp_all add: timeline_def insort_key_min)

lemma initialize_sync: "initialize json store = Inr es \<Longrightarrow> list_all is_sync es"
  by (auto simp: initialize_cases split: option.splits)

text \<open>
  Claim C8. Startup never crashes. Settings that are missing from the store, empty, or text
  that the JSON parser rejects leave the default settings (empty email, threshold 1, capture
  enabled); logs that are missing, empty or rejected leave the empty list. A stored
  passcode (a non-empty string) becomes the stored pin and the mode is locked; with no
  passcode in the store, or an empty one, the mode is setup.
\<close>

theorem C8_startup_defaults:
  "\<exists>w. startup json store = Some w
     \<and> ((store SETTINGS_STORAGE_KEY = None \<or> store SETTINGS_STORAGE_KEY = Some ''''
          \<or> (\<exists>str. store SETTINGS_STORAGE_KEY = Some str \<and> parse_settings json str = None))
        \<longrightarrow> settings (cells w) = DEFAULT_SETTINGS
            \<and> DEFAULT_SETTINGS = \<lparr>alertEmail = '''', triggerThreshold = Num 1, enableCapture = True\<rparr>)
     \<and> ((store LOGS_STORAGE_KEY = None \<or> store LOGS_STORAGE_KEY = Some ''''
          \<or> (\<exists>str. store LOGS_STORAGE_KEY = Some str \<and> parse_logs json str = None))
        \<longrightarrow> logs (cells w) = [])
     \<and> (\<forall>p. store PIN_STORAGE_KEY = Some p \<and> p \<noteq> ''''
        \<longrightarrow> appState (cells w) = LOCKED \<and> storedPin (cells w) = Some p)
     \<and> (store PIN_STORAGE_KEY = None \<or> store PIN_STORAGE_KEY = Some ''''
        \<longrightarrow> appState (cells w) = SETUP \<and> storedPin (cells w) = None)
     \<and> localStorage w = store"
proof -
  obtain es where es: "initialize json store = Inr es"
    by (simp add: initialize_cases)
  have r: "run es (fresh store) = fold exec es (fresh store)"
    by (rule run_sync [OF initialize_sync [OF es]])
  have s: "startup json store = Some (fold exec es (fresh store))"
    by (simp add: startup_def es r)
  have es': "es = (if truthy (store LOGS_STORAGE_KEY) then
             (case parse_logs json (the (store LOGS_STORAGE_KEY)) of
                None \<Rightarrow> [Console_error ''Failed to parse logs'']
              | Some v \<Rightarrow> [Update (SetLogs v)])
           else []) @
          (if truthy (store SETTINGS_STORAGE_KEY) then
             (case parse_settings json (the (store SETTINGS_STORAGE_KEY)) of
                None \<Rightarrow> [Console_error ''Failed to parse settings'']
              | Some v \<Rightarrow> [Update (SetSettings v)])
           else []) @
          (if truthy (store PIN_STORAGE_KEY) then
             [Update (SetStoredPin (the (store PIN_STORAGE_KEY))), Update (SetAppState LOCKED)]
           else [Update (SetAppState SETUP)])"
    using es by (simp add: initialize_cases)
  show ?thesis
    unfolding s
    by (auto simp: es' fresh_def initialState_def DEFAULT_SETTINGS_def split: option.splits)
qed

theorem C8_startup_defaults_witness:
  "store_malformed_ex SETTINGS_STORAGE_KEY = Some ''{triggerThreshold''
   \<and> parse_settings json_ex ''{triggerThreshold'' = None
   \<and> store_malformed_ex LOGS_STORAGE_KEY = Some ''[{''
   \<and> parse_logs json_ex ''[{'' = None
   \<and> store_malformed_ex PIN_STORAGE_KEY = Some ''1234''
   \<and> (\<exists>w. startup json_ex store_malformed_ex = Some w
          \<and> settings (cells w) = DEFAULT_SETTINGS \<and> logs (cells w) = []
          \<and> appState (cells w) = LOCKED \<and> storedPin (cells w) = Some ''1234'')"
proof -
  have h: "store_malformed_ex SETTINGS_STORAGE_KEY = Some ''{triggerThreshold''"
      "parse_settings json_ex ''{triggerThreshold'' = None"
      "store_malformed_ex LOGS_STORAGE_KEY = Some ''[{''"
      "parse_logs json_ex ''[{'' = None"
      "store_malformed_ex PIN_STORAGE_KEY = Some ''1234''"
    by (simp_all add: store_malformed_ex_def json_ex_def stored_settings_9_def
        PIN_STORAGE_KEY_def LOGS_STORAGE_KEY_def SETTINGS_STORAGE_KEY_def)
  obtain w where w: "startup json_ex store_malformed_ex = Some w"
    and a: "(store_malformed_ex SETTINGS_STORAGE_KEY = None
               \<or> store_malformed_ex SETTINGS_STORAGE_KEY = Some ''''
               \<or> (\<exists>str. store_malformed_ex SETTINGS_STORAGE_KEY = Some str
                     \<and> parse_settings json_ex str = None))
            \<longrightarrow> settings (cells w) = DEFAULT_SETTINGS
                \<and> DEFAULT_SETTINGS
                    = \<lparr>alertEmail = '''', triggerThreshold = Num 1, enableCapture = True\<rparr>"
    and b: "(store_malformed_ex LOGS_STORAGE_KEY = None
               \<or> store_malformed_ex LOGS_STORAGE_KEY = Some ''''
               \<or> (\<exists>str. store_malformed_ex LOGS_STORAGE_KEY = Some str
                     \<and> parse_logs json_ex str = None))
            \<longrightarrow> logs (cells w) = []"
    and c: "\<forall>p. store_malformed_ex PIN_STORAGE_KEY = Some p \<and> p \<noteq> ''''
            \<longrightarrow> appState (cells w) = LOCKED \<and> storedPin (cells w) = Some p"
    using C8_startup_defaults [of json_ex store_malformed_ex] by blast
  have a': "settings (cells w) = DEFAULT_SETTINGS" using a h(1,2) by blast
  have b': "logs (cells w) = []" using b h(3,4) by blast
  have c': "appState (cells w) = LOCKED \<and> storedPin (cells w) = Some ''1234''"
    using c h(5) by simp
  show ?thesis using h w a' b' c' by blast
qed

section \<open>Steps of the machine\<close>

lemma before_await_hps:
  "before_await (handlePinSubmit json env c) = [Update (SetSecurityStatus CHECKING)]"
  by (simp add: handlePinSubmit_def)

lemma fold_exec_in_states: "fold exec es w \<in> set (states_from es w)"
  by (induction es arbitrary: w) simp_all

lemma list_all_before_await: "list_all P es \<Longrightarrow> list_all P (before_await es)"
  by (induction es rule: before_await.induct) simp_all

lemma list_all_after_await: "list_all P es \<Longrightarrow> list_all P (after_await es)"
  by (induction es rule: after_await.induct) simp_all

lemma timers_of_sync: "list_all is_sync es \<Longrightarrow> timers_of es = []"
  by (induction es rule: timers_of.induct) simp_all

lemma handler_sync: "list_all is_sync (before_await (handler json gen e c))"
  by (cases e)
     (simp_all add: handleKeyPress_def handleDelete_def onThresholdChange_def onEmailChange_def
        onToggleCapture_def handleAnalyze_def)

lemma set_remaining: "set (remaining e ts) \<subseteq> set ts"
  by (cases e) (auto dest: in_set_takeD in_set_dropD)

lemma step_not_taken: "\<not> takes e m \<Longrightarrow> step json gen (env, e) m = m"
  by (simp add: step_def)

section \<open>Range of the threshold\<close>

lemma fold_exec_keeps_settings:
  "list_all keeps_settings es \<Longrightarrow> settings (cells (fold exec es w)) = settings (cells w)"
proof (induction es arbitrary: w)
  case Nil
  then show ?case by simp
next
  case (Cons e es)
  have "settings (cells (exec e w)) = settings (cells w)"
  proof (cases e)
    case (Update u)
    with Cons.prems show ?thesis by (cases u) simp_all
  qed simp_all
  with Cons show ?case by simp
qed

lemma hps_keeps_settings: "list_all keeps_settings (handlePinSubmit json env c)"
  by (simp add: handlePinSubmit_def Let_def sendSecurityAlert_def)

lemma handleAnalyze_keeps_settings: "list_all keeps_settings (handleAnalyze json gen d c log)"
  by (simp add: handleAnalyze_def analyzeIntruderImage_def Let_def list_all_iff split: sum.splits)

lemma handler_keeps_settings:
  assumes "e \<noteq> ToggleCapture" "\<forall>v. e \<noteq> ThresholdInput v" "\<forall>v. e \<noteq> EmailInput v"
  shows "list_all keeps_settings (handler json gen e c)"
  using assms
  by (cases e) (simp_all add: handleKeyPress_def handleDelete_def handleAnalyze_keeps_settings)

lemma task_effects_keep_settings:
  assumes "task_keeps_settings t"
  shows "list_all keeps_settings (task_effects json gen env t)"
proof (cases t)
  case (Timer us)
  with assms have "list_all update_keeps_settings us" by simp
  then have "list_all keeps_settings (map Update us)" by (induction us) simp_all
  then show ?thesis by (simp add: Timer)
next
  case (Submit c)
  then show ?thesis
    using list_all_after_await [OF hps_keeps_settings] by simp
next
  case (Analyze c log)
  then show ?thesis
    using list_all_after_await [OF handleAnalyze_keeps_settings] by simp
qed

lemma timers_keep_settings:
  "list_all keeps_settings es \<Longrightarrow> list_all task_keeps_settings (timers_of es)"
  by (induction es rule: timers_of.induct) simp_all

lemma after_render_settings:
  "settings (cells (world (after_render json env es w m))) = settings (cells (world m))"
  by (simp add: after_render_def saveSettings_def stopCamera_def Let_def before_await_hps)

lemma after_render_pending:
  "list_all task_keeps_settings (pending (after_render json env es w m))
     = list_all task_keeps_settings (pending m)"
  by (simp add: after_render_def Let_def)

lemma cameraSettled_settings: "settings (cells (cameraSettled env granted w)) = settings (cells w)"
  by (simp add: cameraSettled_def Let_def)

lemma slider_in_range: "v \<in> set slider_values \<Longrightarrow> threshold_in_range (parseInt v)"
  by (auto simp: slider_values_def parseInt_def isWhiteSpace_def isDigitOf_def digitValue_def)

lemma step_effects_user:
  "\<forall>i. e \<noteq> Resume i \<Longrightarrow>
     step_effects json gen env e m = before_await (handler json gen e (cells (world m)))"
  by (cases e) simp_all

lemma timers_of_handler: "timers_of (before_await (handler json gen e c)) = []"
  by (rule timers_of_sync [OF handler_sync])

lemma step_effects_timers_keep_settings:
  assumes "list_all task_keeps_settings (pending m)" "takes e m"
  shows "list_all task_keeps_settings (timers_of (step_effects json gen env e m))"
proof (cases "\<exists>i. e = Resume i")
  case True
  then obtain i where i: "e = Resume i" by blast
  with assms(2) have "pending m ! i \<in> set (pending m)" by simp
  with assms(1) have "task_keeps_settings (pending m ! i)" by (simp add: list_all_iff)
  then show ?thesis
    by (simp add: i timers_keep_settings task_effects_keep_settings)
next
  case False
  then show ?thesis by (simp add: step_effects_user timers_of_handler)
qed

lemma reload_tasks_keep_settings: "list_all task_keeps_settings (pending (reload json env store))"
  by (simp add: reload_def after_render_def Let_def split: sum.splits)

lemma step_tasks_keep_settings:
  assumes "list_all task_keeps_settings (pending m)"
  shows "list_all task_keeps_settings (pending (step json gen ee m))"
proof (cases "takes (snd ee) m")
  case False
  then show ?thesis using assms by (simp add: step_def)
next
  case True
  have rem: "list_all task_keeps_settings (remaining (snd ee) (pending m))"
    using assms set_remaining [of "snd ee" "pending m"] by (auto simp: list_all_iff)
  have tim: "list_all task_keeps_settings (timers_of (step_effects json gen (fst ee) (snd ee) m))"
    by (rule step_effects_timers_keep_settings [OF assms True])
  have aw: "list_all task_keeps_settings (awaited (snd ee) (cells (world m)))"
    by (cases "snd ee") simp_all
  show ?thesis
  proof (cases "snd ee")
    case (CameraSettled granted)
    then show ?thesis using True assms by (simp add: step_def)
  next
    case Reload
    then show ?thesis using True by (simp add: step_def reload_tasks_keep_settings)
  qed (use True rem tim aw in \<open>simp_all add: step_def Let_def after_render_pending\<close>)
qed

lemma reached_tasks_keep_settings:
  "list_all task_keeps_settings (pending (reached json gen env0 store evs))"
proof -
  have "list_all task_keeps_settings (pending m)
          \<Longrightarrow> list_all task_keeps_settings (pending (fold (step json gen) evs m))" for m
    by (induction evs arbitrary: m) (simp_all add: step_tasks_keep_settings)
  then show ?thesis
    by (simp add: reached_def steps_def reload_tasks_keep_settings)
qed

lemma step_settings_effects:
  assumes "takes e m" "e \<noteq> Reload" "\<forall>granted. e \<noteq> CameraSettled granted"
  shows "settings (cells (world (step json gen (env, e) m)))
           = settings (cells (fold exec (step_effects json gen env e m) (world m)))"
  using assms by (cases e) (auto simp: step_def Let_def after_render_settings)

lemma step_keeps_settings:
  assumes "list_all task_keeps_settings (pending m)"
    and "e \<noteq> Reload" "e \<noteq> ToggleCapture" "\<forall>v. e \<noteq> ThresholdInput v" "\<forall>v. e \<noteq> EmailInput v"
  shows "settings (cells (world (step json gen (env, e) m))) = settings (cells (world m))"
proof (cases "takes e m")
  case False
  then show ?thesis by (simp add: step_not_taken)
next
  case True
  show ?thesis
  proof (cases e)
    case (CameraSettled granted)
    then show ?thesis using True by (simp add: step_def cameraSettled_settings)
  next
    case (Resume i)
    with True have "pending m ! i \<in> set (pending m)" by simp
    with assms(1) have "task_keeps_settings (pending m ! i)" by (simp add: list_all_iff)
    then have "list_all keeps_settings (step_effects json gen env e m)"
      by (simp add: Resume task_effects_keep_settings)
    then show ?thesis
      using True Resume by (simp add: step_settings_effects fold_exec_keeps_settings)
  next
    case Reload
    with assms(2) show ?thesis by simp
  next
    case ToggleCapture
    with assms(3) show ?thesis by simp
  next
    case (ThresholdInput v)
    with assms(4) show ?thesis by simp
  next
    case (EmailInput v)
    with assms(5) show ?thesis by simp
  next
    case (KeyPress key)
    have "list_all keeps_settings (step_effects json gen env e m)"
      using handler_keeps_settings [OF assms(3,4,5)] by (simp add: KeyPress list_all_before_await)
    then show ?thesis
      using True KeyPress by (simp add: step_settings_effects fold_exec_keeps_settings)
  next
    case DeletePress
    have "list_all keeps_settings (step_effects json gen env e m)"
      using handler_keeps_settings [OF assms(3,4,5)] by (simp add: DeletePress list_all_before_await)
    then show ?thesis
      using True DeletePress by (simp add: step_settings_effects fold_exec_keeps_settings)
  next
    case ReLock
    have "list_all keeps_settings (step_effects json gen env e m)"
      using handler_keeps_settings [OF assms(3,4,5)] by (simp add: ReLock list_all_before_await)
    then show ?thesis
      using True ReLock by (simp add: step_settings_effects fold_exec_keeps_settings)
  next
    case OpenSettings
    have "list_all keeps_settings (step_effects json gen env e m)"
      using handler_keeps_settings [OF assms(3,4,5)] by (simp add: OpenSettings list_all_before_await)
    then show ?thesis
      using True OpenSettings by (simp add: step_settings_effects fold_exec_keeps_settings)
  next
    case CloseSettings
    have "list_all keeps_settings (step_effects json gen env e m)"
      using handler_keeps_settings [OF assms(3,4,5)] by (simp add: CloseSettings list_all_before_await)
    then show ?thesis
      using True CloseSettings by (simp add: step_settings_effects fold_exec_keeps_settings)
  next
    case (AnalyzeClick log)
    have "list_all keeps_settings (step_effects json gen env e m)"
      using handler_keeps_settings [OF assms(3,4,5)] by (simp add: AnalyzeClick list_all_before_await)
    then show ?thesis
      using True AnalyzeClick by (simp add: step_settings_effects fold_exec_keeps_settings)
  qed
qed

lemma step_email:
  "takes (EmailInput v) m \<Longrightarrow>
     settings (cells (world (step json gen (env, EmailInput v) m)))
       = (settings (cells (world m)))\<lparr>alertEmail := v\<rparr>"
  by (simp add: step_settings_effects onEmailChange_def)

lemma step_toggle:
  "takes ToggleCapture m \<Longrightarrow>
     settings (cells (world (step json gen (env, ToggleCapture) m)))
       = (settings (cells (world m)))\<lparr>enableCapture := \<not> enableCapture (settings (cells (world m)))\<rparr>"
  by (simp add: step_settings_effects onToggleCapture_def)

lemma step_slider:
  "takes (ThresholdInput v) m \<Longrightarrow>
     settings (cells (world (step json gen (env, ThresholdInput v) m)))
       = (settings (cells (world m)))\<lparr>triggerThreshold := parseInt v\<rparr>"
  by (simp add: step_settings_effects onThresholdChange_def)

lemma step_keeps_threshold:
  assumes "list_all task_keeps_settings (pending m)" "e \<noteq> Reload" "\<forall>v. e \<noteq> ThresholdInput v"
  shows "triggerThreshold (settings (cells (world (step json gen (env, e) m))))
           = triggerThreshold (settings (cells (world m)))"
proof (cases "takes e m")
  case False
  then show ?thesis by (simp add: step_not_taken)
next
  case True
  show ?thesis
  proof (cases "e = ToggleCapture \<or> (\<exists>v. e = EmailInput v)")
    case True
    with \<open>takes e m\<close> show ?thesis by (auto simp: step_email step_toggle)
  next
    case False
    then show ?thesis using step_keeps_settings [OF assms(1,2) _ assms(3)] by simp
  qed
qed

lemma reload_settings:
  "settings (cells (world (reload json env store)))
     = (case store SETTINGS_STORAGE_KEY of
          None \<Rightarrow> DEFAULT_SETTINGS
        | Some str \<Rightarrow>
            if str = '''' then DEFAULT_SETTINGS
            else (case parse_settings json str of
                    None \<Rightarrow> DEFAULT_SETTINGS
                  | Some s \<Rightarrow> s))"
proof -
  obtain es where es: "initialize json store = Inr es"
    by (simp add: initialize_cases)
  have r: "run es (fresh store) = fold exec es (fresh store)"
    by (rule run_sync [OF initialize_sync [OF es]])
  have s: "settings (cells (world (reload json env store)))
             = settings (cells (fold exec es (fresh store)))"
    by (simp add: reload_def es r after_render_settings saveSettings_def)
  show ?thesis
    unfolding s using es
    by (auto simp: initialize_cases fresh_def initialState_def split: option.splits if_splits)
qed

text \<open>
  Claim C9 as the specification states it: the threshold is always in the range from 1 to 5,
  also after the settings have been loaded from the store. A load takes the stored object
  as it is parsed: with a stored threshold of 9 the threshold of the component is 9.
\<close>

theorem C9_loaded_threshold_counterexample:
  "store_9_ex SETTINGS_STORAGE_KEY = Some stored_settings_9
   \<and> triggerThreshold (settings (cells (world (reload json_ex env_ex store_9_ex)))) = Num 9
   \<and> \<not> threshold_in_range
         (triggerThreshold (settings (cells (world (reload json_ex env_ex store_9_ex)))))"
proof -
  have a: "store_9_ex SETTINGS_STORAGE_KEY = Some stored_settings_9"
    by (simp add: store_9_ex_def)
  have b: "stored_settings_9 \<noteq> ''''"
    by (simp add: stored_settings_9_def)
  have c: "parse_settings json_ex stored_settings_9
             = Some \<lparr>alertEmail = '''', triggerThreshold = Num 9, enableCapture = True\<rparr>"
    by (simp add: json_ex_def)
  have "settings (cells (world (reload json_ex env_ex store_9_ex)))
          = \<lparr>alertEmail = '''', triggerThreshold = Num 9, enableCapture = True\<rparr>"
    by (simp add: reload_settings a b c)
  then show ?thesis using a by simp
qed

text \<open>
  Claim C9, amended. The threshold starts at the default 1. In every machine the component
  reaches, an event other than a load of the page and other than an input on the slider
  leaves the threshold as it is, whether it is a click, an input, a timer or the resumption
  of a waiting handler; an input on the slider sets it to the integer that
  \<^verbatim>\<open>parseInt\<close> reads from one of the slider's five values, which is in the range from
  1 to 5; so after every event other than a load, a threshold that was in the range is
  still in it. A load of the page gives the default settings when no settings are stored, when
  the stored text is empty and when the parser rejects it, and otherwise gives the stored
  settings object exactly as the parser returns it, with no check of the range.
\<close>

theorem C9_threshold_range:
  assumes "m = reached json gen env0 store evs"
  shows "triggerThreshold DEFAULT_SETTINGS = Num 1
   \<and> settings initialState = DEFAULT_SETTINGS
   \<and> (e \<noteq> Reload \<and> (\<forall>v. e \<noteq> ThresholdInput v)
        \<longrightarrow> triggerThreshold (settings (cells (world (step json gen (env, e) m))))
              = triggerThreshold (settings (cells (world m))))
   \<and> (takes (ThresholdInput v) m
        \<longrightarrow> settings (cells (world (step json gen (env, ThresholdInput v) m)))
              = (settings (cells (world m)))\<lparr>triggerThreshold := parseInt v\<rparr>
            \<and> threshold_in_range (parseInt v))
   \<and> (\<not> takes e m \<longrightarrow> step json gen (env, e) m = m)
   \<and> (e \<noteq> Reload \<and> threshold_in_range (triggerThreshold (settings (cells (world m))))
        \<longrightarrow> threshold_in_range
              (triggerThreshold (settings (cells (world (step json gen (env, e) m))))))
   \<and> step json gen (env, Reload) m = reload json env (localStorage (world m))
   \<and> (saved SETTINGS_STORAGE_KEY = None \<or> saved SETTINGS_STORAGE_KEY = Some ''''
         \<or> (\<exists>str. saved SETTINGS_STORAGE_KEY = Some str \<and> parse_settings json str = None)
        \<longrightarrow> settings (cells (world (reload json env saved))) = DEFAULT_SETTINGS)
   \<and> (\<forall>str s. saved SETTINGS_STORAGE_KEY = Some str \<and> str \<noteq> ''''
                 \<and> parse_settings json str = Some s
        \<longrightarrow> settings (cells (world (reload json env saved))) = s)"
proof -
  have p: "list_all task_keeps_settings (pending m)"
    unfolding assms by (rule reached_tasks_keep_settings)
  have a: "triggerThreshold DEFAULT_SETTINGS = Num 1" "settings initialState = DEFAULT_SETTINGS"
    by (simp_all add: DEFAULT_SETTINGS_def initialState_def)
  have b: "e \<noteq> Reload \<and> (\<forall>v. e \<noteq> ThresholdInput v)
        \<longrightarrow> triggerThreshold (settings (cells (world (step json gen (env, e) m))))
              = triggerThreshold (settings (cells (world m)))"
    using step_keeps_threshold [OF p] by blast
  have c: "takes (ThresholdInput v) m
        \<longrightarrow> settings (cells (world (step json gen (env, ThresholdInput v) m)))
              = (settings (cells (world m)))\<lparr>triggerThreshold := parseInt v\<rparr>
            \<and> threshold_in_range (parseInt v)"
    by (simp add: step_slider slider_in_range)
  have d: "\<not> takes e m \<longrightarrow> step json gen (env, e) m = m"
    by (simp add: step_not_taken)
  have f: "e \<noteq> Reload \<and> threshold_in_range (triggerThreshold (settings (cells (world m))))
        \<longrightarrow> threshold_in_range
              (triggerThreshold (settings (cells (world (step json gen (env, e) m)))))"
  proof (cases "\<exists>u. e = ThresholdInput u")
    case True
    then obtain u where u: "e = ThresholdInput u" by blast
    show ?thesis
    proof (cases "takes e m")
      case True
      then show ?thesis by (simp add: u step_slider slider_in_range)
    next
      case False
      then show ?thesis by (simp add: step_not_taken)
    qed
  next
    case False
    then show ?thesis using step_keeps_threshold [OF p, of e json gen env] by auto
  qed
  have g: "step json gen (env, Reload) m = reload json env (localStorage (world m))"
    by (simp add: step_def)
  have h: "saved SETTINGS_STORAGE_KEY = None \<or> saved SETTINGS_STORAGE_KEY = Some ''''
         \<or> (\<exists>str. saved SETTINGS_STORAGE_KEY = Some str \<and> parse_settings json str = None)
        \<longrightarrow> settings (cells (world (reload json env saved))) = DEFAULT_SETTINGS"
    by (auto simp: reload_settings)
  have i: "\<forall>str s. saved SETTINGS_STORAGE_KEY = Some str \<and> str \<noteq> ''''
                 \<and> parse_settings json str = Some s
        \<longrightarrow> settings (cells (world (reload json env saved))) = s"
    by (auto simp: reload_settings)
  show ?thesis
    using a b c d f g h i by blast
qed

lemma empty_load:
  "reload json env Map.empty
     = \<lparr>world = (fresh Map.empty)\<lparr>localStorage :=
                   [SETTINGS_STORAGE_KEY \<mapsto> stringify_settings json DEFAULT_SETTINGS]\<rparr>,
        pending = []\<rparr>"
proof -
  have es: "initialize json Map.empty = Inr [Update (SetAppState SETUP)]"
    by (simp add: initialize_cases)
  show ?thesis
    by (simp add: reload_def es run_sync after_render_def saveSettings_def
        stopCamera_def fresh_def Let_def initialState_def)
qed

lemmas machine_eval =
  reached_def steps_def empty_load step_def Let_def keypad_keys_def fresh_def initialState_def
  handleKeyPress_def handleDelete_def handlePinSubmit_def after_render_def stopCamera_def
  saveSettings_def

lemma modal_cells:
  "appState (cells (world (reached json_ex failing_service env_ex Map.empty modal_ex))) = UNLOCKED"
  "showSettings (cells (world (reached json_ex failing_service env_ex Map.empty modal_ex)))"
  "settings (cells (world (reached json_ex failing_service env_ex Map.empty modal_ex)))
     = DEFAULT_SETTINGS"
  "storedPin (cells (world (reached json_ex failing_service env_ex Map.empty modal_ex)))
     = Some ''1234''"
  by (simp_all add: modal_ex_def machine_eval)

theorem C9_threshold_range_witness:
  "takes (ThresholdInput ''3'') (reached json_ex failing_service env_ex Map.empty modal_ex)
   \<and> threshold_in_range
        (triggerThreshold
           (settings (cells (world (reached json_ex failing_service env_ex Map.empty modal_ex)))))
   \<and> triggerThreshold
        (settings (cells (world (step json_ex failing_service (env_ex, ThresholdInput ''3'')
           (reached json_ex failing_service env_ex Map.empty modal_ex))))) = Num 3
   \<and> triggerThreshold
        (settings (cells (world (step json_ex failing_service (env_ex, EmailInput ''a@b.c'')
           (reached json_ex failing_service env_ex Map.empty modal_ex))))) = Num 1
   \<and> threshold_in_range
        (triggerThreshold
           (settings (cells (world (step json_ex failing_service (env_ex, EmailInput ''a@b.c'')
              (reached json_ex failing_service env_ex Map.empty modal_ex))))))
   \<and> \<not> takes (KeyPress ''1'') (reached json_ex failing_service env_ex Map.empty modal_ex)
   \<and> step json_ex failing_service (env_ex, KeyPress ''1'')
        (reached json_ex failing_service env_ex Map.empty modal_ex)
       = reached json_ex failing_service env_ex Map.empty modal_ex
   \<and> Map.empty SETTINGS_STORAGE_KEY = (None :: string option)
   \<and> settings (cells (world (reload json_ex env_ex Map.empty))) = DEFAULT_SETTINGS
   \<and> store_9_ex SETTINGS_STORAGE_KEY = Some stored_settings_9
   \<and> stored_settings_9 \<noteq> ''''
   \<and> parse_settings json_ex stored_settings_9
        = Some \<lparr>alertEmail = '''', triggerThreshold = Num 9, enableCapture = True\<rparr>
   \<and> settings (cells (world (reload json_ex env_ex store_9_ex)))
        = \<lparr>alertEmail = '''', triggerThreshold = Num 9, enableCapture = True\<rparr>"
proof -
  let ?m = "reached json_ex failing_service env_ex Map.empty modal_ex"
  have t: "takes (ThresholdInput ''3'') ?m" "\<not> takes (KeyPress ''1'') ?m"
    by (simp_all add: modal_cells slider_values_def)
  have s: "settings (cells (world ?m)) = DEFAULT_SETTINGS"
    by (rule modal_cells)
  have p: "parseInt ''3'' = Num 3"
    by (simp add: parseInt_def isWhiteSpace_def isDigitOf_def digitValue_def)
  have k: "store_9_ex SETTINGS_STORAGE_KEY = Some stored_settings_9" "stored_settings_9 \<noteq> ''''"
      "parse_settings json_ex stored_settings_9
        = Some \<lparr>alertEmail = '''', triggerThreshold = Num 9, enableCapture = True\<rparr>"
    by (simp_all add: store_9_ex_def stored_settings_9_def json_ex_def)
  note r1 = C9_threshold_range [OF refl, where e = "EmailInput ''a@b.c''" and v = "''3''"
      and env = env_ex and json = json_ex and saved = Map.empty and gen = failing_service
      and ?env0.0 = env_ex and store = Map.empty and evs = modal_ex]
  note r2 = C9_threshold_range [OF refl, where e = "KeyPress ''1''" and v = "''3''"
      and env = env_ex and json = json_ex and saved = store_9_ex and gen = failing_service
      and ?env0.0 = env_ex and store = Map.empty and evs = modal_ex]
  have a: "settings (cells (world (step json_ex failing_service (env_ex, ThresholdInput ''3'') ?m)))
             = (settings (cells (world ?m)))\<lparr>triggerThreshold := parseInt ''3''\<rparr>"
    using r1 t(1) by blast
  have b: "triggerThreshold
        (settings (cells (world (step json_ex failing_service (env_ex, EmailInput ''a@b.c'') ?m))))
          = triggerThreshold (settings (cells (world ?m)))"
    using r1 by simp
  have c: "step json_ex failing_service (env_ex, KeyPress ''1'') ?m = ?m"
    using r2 t(2) by blast
  have d: "settings (cells (world (reload json_ex env_ex Map.empty))) = DEFAULT_SETTINGS"
    using r1 by simp
  have e: "settings (cells (world (reload json_ex env_ex store_9_ex)))
        = \<lparr>alertEmail = '''', triggerThreshold = Num 9, enableCapture = True\<rparr>"
    using r2 k by blast
  show ?thesis
    using t k a b c d e by (simp add: s p DEFAULT_SETTINGS_def)
qed

section \<open>A stored passcode exists outside the setup mode\<close>

lemma exec_keeps_pin:
  assumes "pin_invariant (cells w)" "keeps_pin (storedPin (cells w) \<noteq> None) (e # es)"
  shows "pin_invariant (cells (exec e w))
       \<and> keeps_pin (storedPin (cells (exec e w)) \<noteq> None) es"
proof (cases e)
  case (Update u)
  with assms show ?thesis by (cases u) (auto simp: pin_invariant_def)
qed (use assms in simp_all)

lemma keeps_pin_states:
  "pin_invariant (cells w) \<Longrightarrow> keeps_pin (storedPin (cells w) \<noteq> None) es
     \<Longrightarrow> \<forall>w' \<in> set (states_from es w). pin_invariant (cells w')"
proof (induction es arbitrary: w)
  case Nil
  then show ?case by simp
next
  case (Cons e es)
  from exec_keeps_pin [OF Cons.prems]
  have "\<forall>w' \<in> set (states_from es (exec e w)). pin_invariant (cells w')"
    using Cons.IH by blast
  with Cons.prems(1) show ?case by simp
qed

lemma keeps_pin_mono: "keeps_pin b es \<Longrightarrow> (b \<Longrightarrow> b') \<Longrightarrow> keeps_pin b' es"
  by (induction b es rule: keeps_pin.induct) auto

lemma exec_stored_pin: "storedPin (cells w) \<noteq> None \<Longrightarrow> storedPin (cells (exec e w)) \<noteq> None"
proof (cases e)
  case (Update u)
  assume "storedPin (cells w) \<noteq> None"
  with Update show ?thesis by (cases u) simp_all
qed simp_all

lemma stored_pin_stays:
  "storedPin (cells w) \<noteq> None \<Longrightarrow> storedPin (cells (fold exec es w)) \<noteq> None"
proof (induction es arbitrary: w)
  case Nil
  then show ?case by simp
next
  case (Cons e es)
  from Cons.prems have "storedPin (cells (exec e w)) \<noteq> None"
    by (rule exec_stored_pin)
  from Cons.IH [OF this] show ?case by simp
qed

lemma task_invariant_mono: "task_invariant b t \<Longrightarrow> (b \<Longrightarrow> b') \<Longrightarrow> task_invariant b' t"
  by (cases t) (auto intro: keeps_pin_mono)

lemma after_await_hps:
  "after_await (handlePinSubmit json env c) = drop 2 (handlePinSubmit json env c)"
  by (simp add: handlePinSubmit_def)

lemma timers_of_updates: "timers_of (map Update us) = []"
  by (induction us) simp_all

lemma task_effects_keep_pin:
  assumes "task_invariant b t"
  shows "keeps_pin b (task_effects json gen env t)"
proof (cases t)
  case (Timer us)
  with assms show ?thesis by simp
next
  case (Submit c)
  with assms show ?thesis
    by (auto simp: handlePinSubmit_def Let_def sendSecurityAlert_def)
next
  case (Analyze c log)
  then show ?thesis
    by (simp add: handleAnalyze_def analyzeIntruderImage_def Let_def split: sum.splits)
qed

lemma task_timers_invariant:
  assumes "task_invariant b t"
  shows "list_all (task_invariant b) (timers_of (task_effects json gen env t))"
proof (cases t)
  case (Timer us)
  then show ?thesis by (simp add: timers_of_updates)
next
  case (Submit c)
  with assms show ?thesis
    by (auto simp: handlePinSubmit_def Let_def sendSecurityAlert_def)
next
  case (Analyze c log)
  then show ?thesis
    by (simp add: handleAnalyze_def analyzeIntruderImage_def Let_def timers_of_sync
        split: sum.splits)
qed

lemma handler_keeps_pin:
  assumes "pin_invariant c" "enabled e c"
  shows "keeps_pin (storedPin c \<noteq> None) (before_await (handler json gen e c))"
proof (cases e)
  case ReLock
  with assms show ?thesis by (simp add: pin_invariant_def)
qed (simp_all add: handleKeyPress_def handleDelete_def onThresholdChange_def onEmailChange_def
       onToggleCapture_def handleAnalyze_def)

lemma step_effects_keep_pin:
  assumes "machine_invariant m" "takes e m"
  shows "keeps_pin (storedPin (cells (world m)) \<noteq> None) (step_effects json gen env e m)"
proof (cases "\<exists>i. e = Resume i")
  case True
  then obtain i where i: "e = Resume i" by blast
  with assms(2) have "pending m ! i \<in> set (pending m)" by simp
  with assms(1) have "task_invariant (storedPin (cells (world m)) \<noteq> None) (pending m ! i)"
    by (simp add: machine_invariant_def list_all_iff)
  then show ?thesis by (simp add: i task_effects_keep_pin)
next
  case False
  then have en: "enabled e (cells (world m))" using assms(2) by (cases e) simp_all
  from assms(1) have "pin_invariant (cells (world m))" by (simp add: machine_invariant_def)
  from handler_keeps_pin [OF this en] show ?thesis
    using False by (simp add: step_effects_user)
qed

lemma step_states:
  assumes "machine_invariant m" "takes e m"
  shows "\<forall>w' \<in> set (states_from (step_effects json gen env e m) (world m)).
           pin_invariant (cells w')"
  using keeps_pin_states [OF _ step_effects_keep_pin [OF assms]] assms(1)
  by (simp add: machine_invariant_def)

lemma after_render_invariant:
  assumes "machine_invariant m"
  shows "machine_invariant (after_render json env es w m)"
  using assms
  by (auto simp: machine_invariant_def after_render_def Let_def saveSettings_def stopCamera_def
      before_await_hps pin_invariant_def)

lemma initialize_keeps_pin:
  "initialize json store = Inr es \<Longrightarrow> keeps_pin False es"
  by (auto simp: initialize_cases split: option.splits)

lemma fresh_pin: "pin_invariant (cells (fresh store))" "storedPin (cells (fresh store)) = None"
  by (simp_all add: fresh_def initialState_def pin_invariant_def)

lemma reload_invariant: "machine_invariant (reload json env store)"
proof -
  obtain es where es: "initialize json store = Inr es"
    by (simp add: initialize_cases)
  have r: "run es (fresh store) = fold exec es (fresh store)"
    by (rule run_sync [OF initialize_sync [OF es]])
  have "\<forall>w' \<in> set (states_from es (fresh store)). pin_invariant (cells w')"
    using keeps_pin_states [of "fresh store" es] initialize_keeps_pin [OF es] fresh_pin
    by simp
  then have "pin_invariant (cells (fold exec es (fresh store)))"
    using fold_exec_in_states by blast
  then have "machine_invariant
      \<lparr>world = fold exec (saveSettings json initialState) (run es (fresh store)), pending = []\<rparr>"
    by (simp add: machine_invariant_def r saveSettings_def pin_invariant_def)
  then show ?thesis
    by (simp add: reload_def es after_render_invariant)
qed

lemma step_invariant:
  assumes "machine_invariant m"
  shows "machine_invariant (step json gen ee m)"
proof (cases "takes (snd ee) m")
  case False
  then show ?thesis using assms by (simp add: step_def)
next
  case True
  let ?b = "storedPin (cells (world m)) \<noteq> None"
  let ?es = "step_effects json gen (fst ee) (snd ee) m"
  let ?w = "fold exec ?es (world m)"
  let ?b' = "storedPin (cells ?w) \<noteq> None"
  have mono: "?b \<Longrightarrow> ?b'" by (rule stored_pin_stays)
  have pin: "pin_invariant (cells ?w)"
    using step_states [OF assms True, of json gen "fst ee"] fold_exec_in_states by blast
  have old: "list_all (task_invariant ?b) (pending m)"
    using assms by (simp add: machine_invariant_def)
  have rem: "list_all (task_invariant ?b') (remaining (snd ee) (pending m))"
    using old set_remaining [of "snd ee" "pending m"] task_invariant_mono [OF _ mono]
    by (auto simp: list_all_iff)
  have tim: "list_all (task_invariant ?b') (timers_of ?es)"
  proof (cases "\<exists>i. snd ee = Resume i")
    case True
    then obtain i where i: "snd ee = Resume i" by blast
    with \<open>takes (snd ee) m\<close> have "pending m ! i \<in> set (pending m)" by simp
    with old have "task_invariant ?b (pending m ! i)" by (simp add: list_all_iff)
    from task_timers_invariant [OF this, of json gen "fst ee"]
    show ?thesis
      using task_invariant_mono [OF _ mono] by (auto simp: i list_all_iff)
  next
    case False
    then show ?thesis by (simp add: step_effects_user timers_of_handler)
  qed
  have aw: "list_all (task_invariant ?b') (awaited (snd ee) (cells (world m)))"
    by (cases "snd ee") simp_all
  have inv: "machine_invariant
      \<lparr>world = ?w,
       pending = remaining (snd ee) (pending m) @ timers_of ?es
                   @ awaited (snd ee) (cells (world m))\<rparr>"
    using pin rem tim aw by (simp add: machine_invariant_def)
  show ?thesis
  proof (cases "snd ee")
    case (CameraSettled granted)
    then show ?thesis
      using True assms
      by (simp add: step_def machine_invariant_def cameraSettled_def Let_def pin_invariant_def)
  next
    case Reload
    then show ?thesis using True by (simp add: step_def reload_invariant)
  qed (use True after_render_invariant [OF inv] in \<open>simp_all add: step_def Let_def\<close>)
qed

lemma reached_invariant: "machine_invariant (reached json gen env0 store evs)"
proof -
  have "machine_invariant m \<Longrightarrow> machine_invariant (fold (step json gen) evs m)" for m
    by (induction evs arbitrary: m) (simp_all add: step_invariant)
  then show ?thesis
    by (simp add: reached_def steps_def reload_invariant)
qed

text \<open>
  Claim C10. In every machine the component reaches from a load of the page, by any events
  and with waiting handlers and timers resumed in any order, the mode is setup or a stored
  passcode exists: in the locked and in the vault mode the stored pin is not null. A
  submission that waits, closed over a render of the locked mode, closed over a stored pin
  that is not null, so the comparison of the locked mode always has a passcode to compare
  with. The same holds in every world that the effects of a step pass through and in every
  world that the initialization passes through: the initialization and the setup submission
  set the stored pin before they set the locked mode, and the unlock and the re-lock start
  from a world that has one.
\<close>

theorem C10_stored_pin_exists:
  assumes "m = reached json gen env0 store evs"
  shows "machine_invariant m
   \<and> pin_invariant (cells (world m))
   \<and> (appState (cells (world m)) = LOCKED \<or> appState (cells (world m)) = UNLOCKED
        \<longrightarrow> storedPin (cells (world m)) \<noteq> None)
   \<and> (\<forall>c. Submit c \<in> set (pending m) \<and> appState c = LOCKED
        \<longrightarrow> storedPin c \<noteq> None \<and> storedPin (cells (world m)) \<noteq> None)
   \<and> (takes e m \<longrightarrow>
        (\<forall>w' \<in> set (states_from (step_effects json gen env e m) (world m)).
           pin_invariant (cells w')))
   \<and> machine_invariant (step json gen (env, e) m)
   \<and> (\<forall>es. initialize json store = Inr es \<longrightarrow>
        (\<forall>w' \<in> set (states_from es (fresh store)). pin_invariant (cells w')))"
proof -
  have inv: "machine_invariant m"
    unfolding assms by (rule reached_invariant)
  have a: "pin_invariant (cells (world m))"
    using inv by (simp add: machine_invariant_def)
  have b: "appState (cells (world m)) = LOCKED \<or> appState (cells (world m)) = UNLOCKED
        \<longrightarrow> storedPin (cells (world m)) \<noteq> None"
    using a by (auto simp: pin_invariant_def)
  have c: "\<forall>c. Submit c \<in> set (pending m) \<and> appState c = LOCKED
        \<longrightarrow> storedPin c \<noteq> None \<and> storedPin (cells (world m)) \<noteq> None"
  proof (intro allI impI)
    fix c
    assume h: "Submit c \<in> set (pending m) \<and> appState c = LOCKED"
    from inv have "\<forall>t \<in> set (pending m). task_invariant (storedPin (cells (world m)) \<noteq> None) t"
      unfolding machine_invariant_def list_all_iff by blast
    with h have "task_invariant (storedPin (cells (world m)) \<noteq> None) (Submit c)"
      by blast
    with h show "storedPin c \<noteq> None \<and> storedPin (cells (world m)) \<noteq> None"
      by (auto simp: pin_invariant_def)
  qed
  have d: "takes e m \<longrightarrow>
        (\<forall>w' \<in> set (states_from (step_effects json gen env e m) (world m)).
           pin_invariant (cells w'))"
    using step_states [OF inv] by blast
  have f: "machine_invariant (step json gen (env, e) m)"
    by (rule step_invariant [OF inv])
  have g: "\<forall>es. initialize json store = Inr es \<longrightarrow>
        (\<forall>w' \<in> set (states_from es (fresh store)). pin_invariant (cells w'))"
  proof (intro allI impI)
    fix es
    assume "initialize json store = Inr es"
    then have "keeps_pin False es" by (rule initialize_keeps_pin)
    then show "\<forall>w' \<in> set (states_from es (fresh store)). pin_invariant (cells w')"
      using keeps_pin_states [of "fresh store" es] fresh_pin by simp
  qed
  show ?thesis using inv a b c d f g by blast
qed

lemma overlap_world:
  "cells (world (reached json_ex failing_service env_ex Map.empty overlap_ex))
     = initialState\<lparr>appState := LOCKED, storedPin := Some ''7891''\<rparr>"
  "pending (reached json_ex failing_service env_ex Map.empty overlap_ex) = []"
  "dialogs (world (reached json_ex failing_service env_ex Map.empty overlap_ex))
     = [''Passcode set successfully! System is now armed.'',
        ''Passcode set successfully! System is now armed.'']"
  "localStorage (world (reached json_ex failing_service env_ex Map.empty overlap_ex))
     PIN_STORAGE_KEY = Some ''7891''"
  by (simp_all add: overlap_ex_def machine_eval PIN_STORAGE_KEY_def SETTINGS_STORAGE_KEY_def)

lemma waiting_world:
  "pending (reached json_ex failing_service env_ex Map.empty waiting_ex)
     = [Submit (initialState\<lparr>appState := LOCKED, storedPin := Some ''7891'',
                  inputPin := ''0000''\<rparr>)]"
  by (simp add: waiting_ex_def overlap_ex_def machine_eval)

theorem C10_stored_pin_exists_witness:
  "cells (world (reached json_ex failing_service env_ex Map.empty overlap_ex))
     = initialState\<lparr>appState := LOCKED, storedPin := Some ''7891''\<rparr>
   \<and> length (dialogs (world (reached json_ex failing_service env_ex Map.empty overlap_ex))) = 2
   \<and> appState (cells (world (reached json_ex failing_service env_ex Map.empty overlap_ex))) = LOCKED
   \<and> storedPin (cells (world (reached json_ex failing_service env_ex Map.empty overlap_ex)))
       \<noteq> None
   \<and> machine_invariant (reached json_ex failing_service env_ex Map.empty overlap_ex)
   \<and> Submit (initialState\<lparr>appState := LOCKED, storedPin := Some ''7891'', inputPin := ''0000''\<rparr>)
       \<in> set (pending (reached json_ex failing_service env_ex Map.empty waiting_ex))
   \<and> appState (initialState\<lparr>appState := LOCKED, storedPin := Some ''7891'', inputPin := ''0000''\<rparr>)
       = LOCKED
   \<and> storedPin (cells (world (reached json_ex failing_service env_ex Map.empty waiting_ex)))
       \<noteq> None
   \<and> takes (Resume 0) (reached json_ex failing_service env_ex Map.empty waiting_ex)
   \<and> pin_invariant
        (cells (fold exec
           (step_effects json_ex failing_service env_ex (Resume 0)
              (reached json_ex failing_service env_ex Map.empty waiting_ex))
           (world (reached json_ex failing_service env_ex Map.empty waiting_ex))))"
proof -
  let ?m1 = "reached json_ex failing_service env_ex Map.empty overlap_ex"
  let ?m2 = "reached json_ex failing_service env_ex Map.empty waiting_ex"
  let ?c = "initialState\<lparr>appState := LOCKED, storedPin := Some ''7891'', inputPin := ''0000''\<rparr>"
  note r1 = C10_stored_pin_exists [OF refl, where json = json_ex and gen = failing_service
      and ?env0.0 = env_ex and store = Map.empty and evs = overlap_ex and env = env_ex
      and e = "Resume 0"]
  note r2 = C10_stored_pin_exists [OF refl, where json = json_ex and gen = failing_service
      and ?env0.0 = env_ex and store = Map.empty and evs = waiting_ex and env = env_ex
      and e = "Resume 0"]
  have a: "appState (cells (world ?m1)) = LOCKED"
    by (simp add: overlap_world)
  have b: "storedPin (cells (world ?m1)) \<noteq> None"
    using r1 a by blast
  have i: "machine_invariant ?m1"
    using r1 by blast
  have s: "Submit ?c \<in> set (pending ?m2)" "appState ?c = LOCKED"
    by (simp_all add: waiting_world)
  have p: "storedPin (cells (world ?m2)) \<noteq> None"
    using r2 s by blast
  have t: "takes (Resume 0) ?m2"
    by (simp add: waiting_world)
  have "\<forall>w' \<in> set (states_from (step_effects json_ex failing_service env_ex (Resume 0) ?m2)
                      (world ?m2)). pin_invariant (cells w')"
    using r2 t by blast
  then have q: "pin_invariant
        (cells (fold exec (step_effects json_ex failing_service env_ex (Resume 0) ?m2)
           (world ?m2)))"
    using fold_exec_in_states by blast
  show ?thesis
    using a b i s p t q by (simp add: overlap_world)
qed

end
